theory Spec2Isabelle
  imports Complex_Main
begin

section \<open>JavaScript numbers and values\<close>

text \<open>
  A JavaScript \<^verbatim>\<open>number\<close> is a finite value, \<^verbatim>\<open>NaN\<close>, \<^verbatim>\<open>Infinity\<close> or
  \<^verbatim>\<open>-Infinity\<close>. Finite values are reals here: rounding of finite results is not
  modelled. Overflow to an infinity is modelled where the source guards against it, in
  \<^verbatim>\<open>Math.pow\<close> and in products: a result of magnitude \<open>2 ^ 1024\<close> or more is
  infinite. Sums and differences of counters and clock readings are exact.
\<close>

datatype jsnum = Num real | NaN | PosInf | NegInf

fun Number_isFinite :: "jsnum \<Rightarrow> bool" where
  "Number_isFinite (Num r) = True"
| "Number_isFinite NaN = False"
| "Number_isFinite PosInf = False"
| "Number_isFinite NegInf = False"

fun Number_isInteger :: "jsnum \<Rightarrow> bool" where
  "Number_isInteger (Num r) = (r = of_int \<lfloor>r\<rfloor>)"
| "Number_isInteger NaN = False"
| "Number_isInteger PosInf = False"
| "Number_isInteger NegInf = False"

text \<open>The comparisons \<^verbatim>\<open><\<close> and \<^verbatim>\<open><=\<close>: false whenever an operand is \<^verbatim>\<open>NaN\<close>.\<close>

fun js_lt :: "jsnum \<Rightarrow> jsnum \<Rightarrow> bool" where
  "js_lt (Num x) (Num y) = (x < y)"
| "js_lt (Num x) PosInf = True"
| "js_lt NegInf (Num y) = True"
| "js_lt NegInf PosInf = True"
| "js_lt a b = False"

fun js_le :: "jsnum \<Rightarrow> jsnum \<Rightarrow> bool" where
  "js_le (Num x) (Num y) = (x \<le> y)"
| "js_le (Num x) PosInf = True"
| "js_le NegInf (Num y) = True"
| "js_le NegInf PosInf = True"
| "js_le PosInf PosInf = True"
| "js_le NegInf NegInf = True"
| "js_le a b = False"

definition js_gt :: "jsnum \<Rightarrow> jsnum \<Rightarrow> bool" where
  "js_gt a b = js_lt b a"

definition js_ge :: "jsnum \<Rightarrow> jsnum \<Rightarrow> bool" where
  "js_ge a b = js_le b a"

text \<open>Strict equality \<^verbatim>\<open>===\<close> of two numbers: \<^verbatim>\<open>NaN\<close> equals nothing.\<close>

definition js_eq :: "jsnum \<Rightarrow> jsnum \<Rightarrow> bool" where
  "js_eq a b = (a \<noteq> NaN \<and> a = b)"

definition overflow :: "real \<Rightarrow> jsnum" where
  "overflow r = (if \<bar>r\<bar> < 2 ^ 1024 then Num r else if 0 < r then PosInf else NegInf)"

fun js_mul :: "jsnum \<Rightarrow> jsnum \<Rightarrow> jsnum" where
  "js_mul (Num x) (Num y) = overflow (x * y)"
| "js_mul NaN b = NaN"
| "js_mul a NaN = NaN"
| "js_mul (Num x) PosInf = (if x = 0 then NaN else if 0 < x then PosInf else NegInf)"
| "js_mul (Num x) NegInf = (if x = 0 then NaN else if 0 < x then NegInf else PosInf)"
| "js_mul PosInf (Num y) = (if y = 0 then NaN else if 0 < y then PosInf else NegInf)"
| "js_mul NegInf (Num y) = (if y = 0 then NaN else if 0 < y then NegInf else PosInf)"
| "js_mul PosInf PosInf = PosInf"
| "js_mul NegInf NegInf = PosInf"
| "js_mul PosInf NegInf = NegInf"
| "js_mul NegInf PosInf = NegInf"

fun js_add :: "jsnum \<Rightarrow> jsnum \<Rightarrow> jsnum" where
  "js_add (Num x) (Num y) = Num (x + y)"
| "js_add NaN b = NaN"
| "js_add a NaN = NaN"
| "js_add PosInf NegInf = NaN"
| "js_add NegInf PosInf = NaN"
| "js_add PosInf b = PosInf"
| "js_add NegInf b = NegInf"
| "js_add (Num x) b = b"

fun js_neg :: "jsnum \<Rightarrow> jsnum" where
  "js_neg (Num x) = Num (- x)"
| "js_neg NaN = NaN"
| "js_neg PosInf = NegInf"
| "js_neg NegInf = PosInf"

definition js_sub :: "jsnum \<Rightarrow> jsnum \<Rightarrow> jsnum" where
  "js_sub a b = js_add a (js_neg b)"

text \<open>\<^verbatim>\<open>Math.min(a, b)\<close>: \<^verbatim>\<open>NaN\<close> if either argument is.\<close>

definition Math_min :: "jsnum \<Rightarrow> jsnum \<Rightarrow> jsnum" where
  "Math_min a b = (if a = NaN \<or> b = NaN then NaN else if js_le a b then a else b)"

text \<open>
  \<^verbatim>\<open>Math.pow(2, n)\<close> for a non-negative integer \<open>n\<close>, the only use the source makes of
  it: exact up to \<open>2 ^ 1023\<close>, \<^verbatim>\<open>Infinity\<close> beyond.
\<close>

definition Math_pow2 :: "nat \<Rightarrow> jsnum" where
  "Math_pow2 n = (if n \<le> 1023 then Num (2 ^ n) else PosInf)"

text \<open>
  A thrown value is \<^verbatim>\<open>unknown\<close> in the source. An object is the association list of the
  properties that \<^verbatim>\<open>in\<close> finds on it (own and inherited); a function value has
  properties too, and differs in its \<^verbatim>\<open>typeof\<close>. Property reads have no side effects
  (no getters or proxies).
\<close>

datatype jsval =
    JUndefined
  | JNull
  | JBoolean bool
  | JNumber jsnum
  | JString string
  | JObject "(string \<times> jsval) list"
  | JFunction "(string \<times> jsval) list"

fun typeof :: "jsval \<Rightarrow> string" where
  "typeof JUndefined = ''undefined''"
| "typeof JNull = ''object''"
| "typeof (JBoolean b) = ''boolean''"
| "typeof (JNumber n) = ''number''"
| "typeof (JString s) = ''string''"
| "typeof (JObject ps) = ''object''"
| "typeof (JFunction ps) = ''function''"

fun properties :: "jsval \<Rightarrow> (string \<times> jsval) list" where
  "properties (JObject ps) = ps"
| "properties (JFunction ps) = ps"
| "properties v = []"

text \<open>\<^verbatim>\<open>key in v\<close> and \<^verbatim>\<open>v.key\<close>, for a value that passed the \<^verbatim>\<open>typeof\<close> guard.\<close>

definition js_in :: "string \<Rightarrow> jsval \<Rightarrow> bool" where
  "js_in k v = (map_of (properties v) k \<noteq> None)"

definition js_get :: "jsval \<Rightarrow> string \<Rightarrow> jsval" where
  "js_get v k = (case map_of (properties v) k of None \<Rightarrow> JUndefined | Some x \<Rightarrow> x)"

section \<open>utils.ts: backoff delay, jitter, network errors\<close>

text \<open>
  \<^verbatim>\<open>calculateBackoffDelay(attempt, baseDelayMs, maxDelayMs)\<close>; \<open>attempt\<close> is the
  non-negative integer retry index.
\<close>

definition calculateBackoffDelay :: "nat \<Rightarrow> jsnum \<Rightarrow> jsnum \<Rightarrow> jsnum" where
  "calculateBackoffDelay attempt baseDelayMs maxDelayMs =
     (let exp = Math_pow2 attempt;
          delay = js_mul baseDelayMs exp
      in if \<not> Number_isFinite delay then maxDelayMs
         else Math_min maxDelayMs delay)"

definition RETRYABLE_NETWORK_CODES :: "string list" where
  "RETRYABLE_NETWORK_CODES = [''ECONNRESET'', ''ETIMEDOUT'', ''ENOTFOUND'', ''EAI_AGAIN'']"

definition isNetworkError :: "jsval \<Rightarrow> bool" where
  "isNetworkError error =
     (if error = JNull \<or> error = JUndefined then False
      else if typeof error = ''object'' \<and> js_in ''code'' error then
        (case js_get error ''code'' of
           JString code \<Rightarrow> code \<in> set RETRYABLE_NETWORK_CODES
         | _ \<Rightarrow> False)
      else False)"

section \<open>policies.ts: HTTP status and the default policy\<close>

text \<open>
  The test \<^verbatim>\<open>typeof status === "number" && Number.isInteger(status)\<close> on a property
  value, giving the status it accepts.
\<close>

definition integerStatus :: "jsval \<Rightarrow> jsnum option" where
  "integerStatus status =
     (case status of
        JNumber n \<Rightarrow> if Number_isInteger n then Some n else None
      | _ \<Rightarrow> None)"

definition extractHttpStatus :: "jsval \<Rightarrow> jsnum option" where
  "extractHttpStatus error =
     (if error = JNull \<or> error = JUndefined \<or> typeof error \<noteq> ''object'' then None
      else case (if js_in ''status'' error then integerStatus (js_get error ''status'') else None) of
          Some status \<Rightarrow> Some status
        | None \<Rightarrow>
            (if js_in ''response'' error then
               (let response = js_get error ''response'' in
                  if response \<noteq> JNull \<and> response \<noteq> JUndefined \<and> typeof response = ''object''
                     \<and> js_in ''status'' response
                  then integerStatus (js_get response ''status'')
                  else None)
             else None))"

definition isRetryableHttpError :: "jsval \<Rightarrow> bool" where
  "isRetryableHttpError error =
     (case extractHttpStatus error of
        None \<Rightarrow> False
      | Some status \<Rightarrow>
          if js_eq status (Num 429) then True
          else if js_ge status (Num 500) \<and> js_le status (Num 599) then True
          else False)"

definition defaultRetryPolicy :: "jsval \<Rightarrow> bool" where
  "defaultRetryPolicy error =
     (if isNetworkError error then True
      else case extractHttpStatus error of
          Some status \<Rightarrow>
            if js_eq status (Num 429) then True
            else if js_ge status (Num 500) \<and> js_le status (Num 599) then True
            else if js_ge status (Num 400) \<and> js_le status (Num 499) then False
            else True
        | None \<Rightarrow> True)"

text \<open>
  The spec's reading of the status lookup, for comparison with \<open>extractHttpStatus\<close>:
  the status of an error object is its \<^verbatim>\<open>status\<close> property when that is an integer
  number, and otherwise the \<^verbatim>\<open>status\<close> of its \<^verbatim>\<open>response\<close> object, when that
  is an integer number.
\<close>

definition statusField :: "(string \<times> jsval) list \<Rightarrow> jsnum option" where
  "statusField ps =
     (case map_of ps ''status'' of
        Some (JNumber n) \<Rightarrow> if Number_isInteger n then Some n else None
      | _ \<Rightarrow> None)"

definition foundStatus :: "jsval \<Rightarrow> jsnum option" where
  "foundStatus e =
     (case e of
        JObject ps \<Rightarrow>
          (case statusField ps of
             Some s \<Rightarrow> Some s
           | None \<Rightarrow> (case map_of ps ''response'' of
                        Some (JObject rs) \<Rightarrow> statusField rs
                      | _ \<Rightarrow> None))
      | _ \<Rightarrow> None)"

text \<open>The error has a string \<^verbatim>\<open>code\<close> in the fixed set of transport codes.\<close>

definition hasRetryableCode :: "jsval \<Rightarrow> bool" where
  "hasRetryableCode e =
     (case map_of (properties e) ''code'' of
        Some (JString c) \<Rightarrow> c \<in> set RETRYABLE_NETWORK_CODES
      | _ \<Rightarrow> False)"

section \<open>types.ts and errors.ts\<close>

record RetryErrorMetadata =
  totalAttempts :: jsnum
  totalElapsedMs :: jsnum

text \<open>
  The four messages of \<open>validateOptions\<close>, each with the values it interpolates:
  \<^verbatim>\<open>maxRetries must be >= 0, received m\<close>; \<^verbatim>\<open>baseDelayMs must be > 0, received b\<close>;
  \<^verbatim>\<open>maxDelayMs (m) must be >= baseDelayMs (b)\<close>; \<^verbatim>\<open>timeoutMs must be > 0, received t\<close>.
\<close>

datatype config_error =
    MaxRetriesNegative jsnum
  | BaseDelayNotPositive jsnum
  | MaxDelayBelowBase jsnum jsnum
  | TimeoutNotPositive jsnum

text \<open>
  What \<open>smartRetry\<close> can throw: the plain \<^verbatim>\<open>Error\<close> of the validation, the three
  \<^verbatim>\<open>SmartRetryError\<close> subclasses with their metadata and \<^verbatim>\<open>cause\<close>, or a value
  thrown by the caller's code, passed on as it is.
\<close>

datatype thrown =
    ConfigError config_error
  | TimeoutError RetryErrorMetadata jsval
  | AbortError RetryErrorMetadata jsval
  | RetryExhaustedError RetryErrorMetadata jsval
  | Raw jsval

datatype 'a settled = Fulfilled 'a | Rejected thrown

text \<open>
  The world \<open>'w\<close> is everything outside the call: the clock, the signal's state, the
  caller's callbacks and whatever they touch. Callbacks take the world and return it
  changed; a callback that throws returns \<open>Inl\<close> of the thrown value. The wrapped
  operation is assumed to settle.
\<close>

record 'w AbortSignal =
  aborted :: "'w \<Rightarrow> bool"
  reason :: "'w \<Rightarrow> jsval"

record 'w RetryOptions =
  maxRetries :: "jsnum option"
  baseDelayMs :: "jsnum option"
  maxDelayMs :: "jsnum option"
  jitter :: "bool option"
  retryOn :: "(jsval \<Rightarrow> nat \<Rightarrow> 'w \<Rightarrow> (jsval + bool) \<times> 'w) option"
  onRetry :: "(jsval \<Rightarrow> nat \<Rightarrow> jsnum \<Rightarrow> 'w \<Rightarrow> (jsval + unit) \<times> 'w) option"
  timeoutMs :: "jsnum option"
  signal :: "'w AbortSignal option"

text \<open>
  The platform: \<^verbatim>\<open>Date.now()\<close> (integer milliseconds; reading it lets time pass),
  \<^verbatim>\<open>Math.random()\<close>, and what happens while a timer of the given duration is
  pending (\<open>True\<close>: the signal's abort event was delivered before the timer fired).
\<close>

record 'w runtime =
  Date_now :: "'w \<Rightarrow> int \<times> 'w"
  Math_random :: "'w \<Rightarrow> real \<times> 'w"
  timer :: "jsnum \<Rightarrow> 'w \<Rightarrow> bool \<times> 'w"

text \<open>
  The calls a run makes, in order: \<open>Clock t\<close> for a \<^verbatim>\<open>Date.now()\<close> that returned
  \<open>t\<close>; \<open>Invoked a r\<close> for \<^verbatim>\<open>await fn(a)\<close>, \<open>r\<close> the rejection if any;
  \<open>Classify e a\<close> for \<^verbatim>\<open>retryOn(e, a)\<close>; \<open>Random r\<close> for a \<^verbatim>\<open>Math.random()\<close>
  that returned \<open>r\<close>; \<open>Notify e a d\<close> for \<^verbatim>\<open>onRetry(e, a, d)\<close>; \<open>Sleep d\<close> for
  \<^verbatim>\<open>sleep(d, signal)\<close>; \<open>Polled b\<close> for a \<^verbatim>\<open>signal?.aborted\<close> of \<open>smartRetry\<close>
  on a signal that was given, which read \<open>b\<close>.
\<close>

datatype event =
    Clock int
  | Invoked nat "jsval option"
  | Classify jsval nat
  | Random real
  | Notify jsval nat jsnum
  | Sleep jsnum
  | Polled bool

type_synonym ('w, 'x) step = "'w \<Rightarrow> (thrown + 'x) \<times> 'w \<times> event list"

definition ret :: "'x \<Rightarrow> ('w, 'x) step" where
  "ret x w = (Inr x, w, [])"

definition throw :: "thrown \<Rightarrow> ('w, 'x) step" where
  "throw e w = (Inl e, w, [])"

definition reading :: "('w \<Rightarrow> 'x) \<Rightarrow> ('w, 'x) step" where
  "reading f w = (Inr (f w), w, [])"

definition andThen :: "('w, 'x) step \<Rightarrow> ('x \<Rightarrow> ('w, 'y) step) \<Rightarrow> ('w, 'y) step" where
  "andThen m f w =
     (case m w of
        (Inl e, w1, ev1) \<Rightarrow> (Inl e, w1, ev1)
      | (Inr x, w1, ev1) \<Rightarrow> (case f x w1 of (r, w2, ev2) \<Rightarrow> (r, w2, ev1 @ ev2)))"

definition dateNow :: "'w runtime \<Rightarrow> ('w, int) step" where
  "dateNow rt w = (case Date_now rt w of (t, w1) \<Rightarrow> (Inr t, w1, [Clock t]))"

definition mathRandom :: "'w runtime \<Rightarrow> ('w, real) step" where
  "mathRandom rt w = (case Math_random rt w of (r, w1) \<Rightarrow> (Inr r, w1, [Random r]))"

section \<open>utils.ts: jitter and sleep\<close>

definition applyJitter :: "'w runtime \<Rightarrow> jsnum \<Rightarrow> ('w, jsnum) step" where
  "applyJitter rt delay = andThen (mathRandom rt) (\<lambda>r. ret (js_mul (Num r) delay))"

definition DOMException_AbortError :: jsval where
  "DOMException_AbortError =
     JObject [(''name'', JString ''AbortError''), (''message'', JString ''The operation was aborted.'')]"

text \<open>\<^verbatim>\<open>signal.reason ?? new DOMException(...)\<close>\<close>

definition rejection :: "'w AbortSignal \<Rightarrow> 'w \<Rightarrow> jsval" where
  "rejection s w = (if reason s w = JNull \<or> reason s w = JUndefined then DOMException_AbortError else reason s w)"

text \<open>
  \<^verbatim>\<open>await sleep(ms, signal)\<close>: rejected at once when the signal is already aborted;
  otherwise the timer is set, and the promise is rejected if the abort event comes
  first and resolved if the timer does. \<open>Inl\<close> is the rejection.
\<close>

definition sleep :: "'w runtime \<Rightarrow> jsnum \<Rightarrow> 'w AbortSignal option \<Rightarrow> 'w \<Rightarrow> (jsval + unit) \<times> 'w" where
  "sleep rt ms sig w =
     (case sig of
        None \<Rightarrow> (case timer rt ms w of (abortFirst, w1) \<Rightarrow> (Inr (), w1))
      | Some s \<Rightarrow>
          if aborted s w then (Inl (rejection s w), w)
          else (case timer rt ms w of
                  (abortFirst, w1) \<Rightarrow>
                    if abortFirst then (Inl (rejection s w1), w1) else (Inr (), w1)))"

section \<open>smartRetry.ts\<close>

definition DEFAULTS_maxRetries :: jsnum where "DEFAULTS_maxRetries = Num 3"
definition DEFAULTS_baseDelayMs :: jsnum where "DEFAULTS_baseDelayMs = Num 300"
definition DEFAULTS_maxDelayMs :: jsnum where "DEFAULTS_maxDelayMs = Num 5000"
definition DEFAULTS_jitter :: bool where "DEFAULTS_jitter = True"

text \<open>\<^verbatim>\<open>v ?? d\<close> on an optional option: \<open>None\<close> is \<^verbatim>\<open>undefined\<close>.\<close>

definition nullish :: "'x option \<Rightarrow> 'x \<Rightarrow> 'x" where
  "nullish v d = (case v of None \<Rightarrow> d | Some x \<Rightarrow> x)"

text \<open>\<^verbatim>\<open>v !== undefined && p(v)\<close>, giving the offending value.\<close>

definition offending :: "jsnum option \<Rightarrow> (jsnum \<Rightarrow> bool) \<Rightarrow> jsnum option" where
  "offending v p = (case v of None \<Rightarrow> None | Some x \<Rightarrow> if p x then Some x else None)"

text \<open>\<open>validateOptions\<close>: \<open>Some\<close> of the error it throws, \<open>None\<close> when it returns.\<close>

definition validateOptions :: "'w RetryOptions \<Rightarrow> config_error option" where
  "validateOptions options =
     (case offending (maxRetries options) (\<lambda>m. js_lt m (Num 0)) of
        Some m \<Rightarrow> Some (MaxRetriesNegative m)
      | None \<Rightarrow>
     (case offending (baseDelayMs options) (\<lambda>b. js_le b (Num 0)) of
        Some b \<Rightarrow> Some (BaseDelayNotPositive b)
      | None \<Rightarrow>
     (let effectiveBaseDelay = nullish (baseDelayMs options) DEFAULTS_baseDelayMs in
      case offending (maxDelayMs options) (\<lambda>m. js_lt m effectiveBaseDelay) of
        Some m \<Rightarrow> Some (MaxDelayBelowBase m effectiveBaseDelay)
      | None \<Rightarrow>
     (case offending (timeoutMs options) (\<lambda>t. js_le t (Num 0)) of
        Some t \<Rightarrow> Some (TimeoutNotPositive t)
      | None \<Rightarrow> None))))"

text \<open>The constants of lines 90 to 94 of \<open>smartRetry\<close>.\<close>

definition the_maxRetries :: "'w RetryOptions \<Rightarrow> jsnum" where
  "the_maxRetries options = nullish (maxRetries options) DEFAULTS_maxRetries"

definition the_baseDelayMs :: "'w RetryOptions \<Rightarrow> jsnum" where
  "the_baseDelayMs options = nullish (baseDelayMs options) DEFAULTS_baseDelayMs"

definition the_maxDelayMs :: "'w RetryOptions \<Rightarrow> jsnum" where
  "the_maxDelayMs options = nullish (maxDelayMs options) DEFAULTS_maxDelayMs"

definition the_jitter :: "'w RetryOptions \<Rightarrow> bool" where
  "the_jitter options = nullish (jitter options) DEFAULTS_jitter"

definition the_retryOn :: "'w RetryOptions \<Rightarrow> jsval \<Rightarrow> nat \<Rightarrow> 'w \<Rightarrow> (jsval + bool) \<times> 'w" where
  "the_retryOn options = nullish (retryOn options) (\<lambda>error attempt w. (Inr (defaultRetryPolicy error), w))"

text \<open>\<^verbatim>\<open>signal?.aborted\<close> and \<^verbatim>\<open>signal.reason\<close>.\<close>

definition signalAborted :: "'w RetryOptions \<Rightarrow> 'w \<Rightarrow> bool" where
  "signalAborted options w = (case signal options of None \<Rightarrow> False | Some s \<Rightarrow> aborted s w)"

definition signalReason :: "'w RetryOptions \<Rightarrow> 'w \<Rightarrow> jsval" where
  "signalReason options w = (case signal options of None \<Rightarrow> JUndefined | Some s \<Rightarrow> reason s w)"

text \<open>The read of \<^verbatim>\<open>signal?.aborted\<close> as a call: nothing is read when no signal was given.\<close>

definition polled :: "'w RetryOptions \<Rightarrow> 'w \<Rightarrow> event list" where
  "polled options w = (case signal options of None \<Rightarrow> [] | Some s \<Rightarrow> [Polled (aborted s w)])"

definition checkSignal :: "'w RetryOptions \<Rightarrow> ('w, bool) step" where
  "checkSignal options w = (Inr (signalAborted options w), w, polled options w)"

definition elapsedSince :: "int \<Rightarrow> int \<Rightarrow> jsnum" where
  "elapsedSince startTime now = Num (of_int (now - startTime))"

text \<open>
  The timeout check of lines 113 to 121 and 148 to 156: \<open>made\<close> is the
  \<^verbatim>\<open>totalAttempts\<close> it reports and \<open>cause\<close> the error it wraps.
\<close>

definition checkTimeout :: "'w runtime \<Rightarrow> 'w RetryOptions \<Rightarrow> int \<Rightarrow> nat \<Rightarrow> jsval \<Rightarrow> ('w, unit) step" where
  "checkTimeout rt options startTime made cause =
     (case timeoutMs options of
        None \<Rightarrow> ret ()
      | Some limit \<Rightarrow>
          andThen (dateNow rt) (\<lambda>now.
            let elapsed = elapsedSince startTime now in
            if js_ge elapsed limit
            then throw (TimeoutError \<lparr>totalAttempts = Num (real made), totalElapsedMs = elapsed\<rparr> cause)
            else ret ()))"

text \<open>The abort check of lines 124 to 129 and 159 to 164.\<close>

definition checkAbort :: "'w runtime \<Rightarrow> 'w RetryOptions \<Rightarrow> int \<Rightarrow> nat \<Rightarrow> ('w, unit) step" where
  "checkAbort rt options startTime made =
     andThen (checkSignal options) (\<lambda>isAborted.
       if isAborted then
         andThen (dateNow rt) (\<lambda>now.
         andThen (reading (signalReason options)) (\<lambda>cause.
           throw (AbortError \<lparr>totalAttempts = Num (real made),
                              totalElapsedMs = elapsedSince startTime now\<rparr> cause)))
       else ret ())"

text \<open>\<^verbatim>\<open>retryOn(error, attempt)\<close>; an exception of the predicate propagates.\<close>

definition callRetryOn :: "'w RetryOptions \<Rightarrow> jsval \<Rightarrow> nat \<Rightarrow> ('w, bool) step" where
  "callRetryOn options error attempt w =
     (case the_retryOn options error attempt w of
        (Inl x, w1) \<Rightarrow> (Inl (Raw x), w1, [Classify error attempt])
      | (Inr b, w1) \<Rightarrow> (Inr b, w1, [Classify error attempt]))"

text \<open>Lines 166 to 173: the backoff delay of this retry, jittered if enabled.\<close>

definition computeDelay :: "'w runtime \<Rightarrow> 'w RetryOptions \<Rightarrow> nat \<Rightarrow> ('w, jsnum) step" where
  "computeDelay rt options attempt =
     (let retryIndex = attempt;
          delay = calculateBackoffDelay retryIndex (the_baseDelayMs options) (the_maxDelayMs options)
      in if the_jitter options then applyJitter rt delay else ret delay)"

text \<open>Lines 175 to 186: the clamp to the remaining budget.\<close>

definition clampDelay :: "'w runtime \<Rightarrow> 'w RetryOptions \<Rightarrow> int \<Rightarrow> nat \<Rightarrow> jsval \<Rightarrow> jsnum \<Rightarrow> ('w, jsnum) step" where
  "clampDelay rt options startTime attempt error delay =
     (case timeoutMs options of
        None \<Rightarrow> ret delay
      | Some limit \<Rightarrow>
          andThen (dateNow rt) (\<lambda>now.
            let elapsed = elapsedSince startTime now;
                remaining = js_sub limit elapsed
            in if js_le remaining (Num 0)
               then throw (TimeoutError \<lparr>totalAttempts = Num (real (attempt + 1)),
                                         totalElapsedMs = elapsed\<rparr> error)
               else ret (Math_min delay remaining)))"

text \<open>Lines 188 to 191: \<^verbatim>\<open>onRetry(error, attempt + 1, delay)\<close>, if given.\<close>

definition callOnRetry :: "'w RetryOptions \<Rightarrow> jsval \<Rightarrow> nat \<Rightarrow> jsnum \<Rightarrow> ('w, unit) step" where
  "callOnRetry options error upcoming delay w =
     (case onRetry options of
        None \<Rightarrow> (Inr (), w, [])
      | Some hook \<Rightarrow>
          (case hook error upcoming delay w of
             (Inl x, w1) \<Rightarrow> (Inl (Raw x), w1, [Notify error upcoming delay])
           | (Inr u, w1) \<Rightarrow> (Inr (), w1, [Notify error upcoming delay])))"

text \<open>Lines 193 to 208: the sleep, and the \<^verbatim>\<open>AbortError\<close> when it is rejected.\<close>

definition sleepOrAbort :: "'w runtime \<Rightarrow> 'w RetryOptions \<Rightarrow> int \<Rightarrow> nat \<Rightarrow> jsval \<Rightarrow> jsnum \<Rightarrow> ('w, unit) step" where
  "sleepOrAbort rt options startTime attempt lastError delay w =
     (case sleep rt delay (signal options) w of
        (Inr u, w1) \<Rightarrow> (Inr (), w1, [Sleep delay])
      | (Inl x, w1) \<Rightarrow>
          (case Date_now rt w1 of
             (now, w2) \<Rightarrow>
               (Inl (AbortError \<lparr>totalAttempts = Num (real (attempt + 1)),
                                  totalElapsedMs = elapsedSince startTime now\<rparr>
                       (if signalAborted options w1 then signalReason options w2 else lastError)),
                w2, Sleep delay # polled options w1 @ [Clock now])))"

text \<open>Lines 112 to 129: the two checks before the operation is invoked.\<close>

definition beforeAttempt :: "'w runtime \<Rightarrow> 'w RetryOptions \<Rightarrow> int \<Rightarrow> nat \<Rightarrow> jsval \<Rightarrow> ('w, unit) step" where
  "beforeAttempt rt options startTime attempt lastError =
     andThen (checkTimeout rt options startTime attempt lastError) (\<lambda>u.
       checkAbort rt options startTime attempt)"

datatype control = Break | Continue

text \<open>The \<^verbatim>\<open>catch\<close> block, lines 134 to 209, for the attempt that threw \<open>error\<close>.\<close>

definition afterFailure :: "'w runtime \<Rightarrow> 'w RetryOptions \<Rightarrow> int \<Rightarrow> nat \<Rightarrow> jsval \<Rightarrow> ('w, control) step" where
  "afterFailure rt options startTime attempt error =
     (if js_ge (Num (real attempt)) (the_maxRetries options) then ret Break
      else
        andThen (callRetryOn options error attempt) (\<lambda>retry.
          if \<not> retry then throw (Raw error)
          else
            andThen (checkTimeout rt options startTime (attempt + 1) error) (\<lambda>u.
            andThen (checkAbort rt options startTime (attempt + 1)) (\<lambda>u.
            andThen (computeDelay rt options attempt) (\<lambda>delay.
            andThen (clampDelay rt options startTime attempt error delay) (\<lambda>delay.
            andThen (callOnRetry options error (attempt + 1) delay) (\<lambda>u.
            andThen (sleepOrAbort rt options startTime attempt error delay) (\<lambda>u.
              ret Continue))))))))"

text \<open>Lines 212 to 217.\<close>

definition exhausted :: "'w runtime \<Rightarrow> 'w RetryOptions \<Rightarrow> int \<Rightarrow> jsval \<Rightarrow> ('w, 'x) step" where
  "exhausted rt options startTime lastError =
     andThen (dateNow rt) (\<lambda>now.
       throw (RetryExhaustedError \<lparr>totalAttempts = js_add (the_maxRetries options) (Num 1),
                                   totalElapsedMs = elapsedSince startTime now\<rparr> lastError))"

definition settle :: "(thrown + 'a) \<times> 'w \<times> event list \<Rightarrow> 'a settled \<times> 'w \<times> event list" where
  "settle r = (case r of (Inl e, w, evs) \<Rightarrow> (Rejected e, w, evs) | (Inr v, w, evs) \<Rightarrow> (Fulfilled v, w, evs))"

definition after :: "event list \<Rightarrow> 'r \<times> 'w \<times> event list \<Rightarrow> 'r \<times> 'w \<times> event list" where
  "after pre r = (case r of (x, w, evs) \<Rightarrow> (x, w, pre @ evs))"

text \<open>
  The \<^verbatim>\<open>for\<close> loop of lines 111 to 210 and what follows it. With
  \<^verbatim>\<open>maxRetries: Infinity\<close> and an operation that keeps failing the loop does not end,
  so the function takes the number of iterations it may still run and returns \<open>None\<close>
  when they are used up.
\<close>

fun attempts ::
  "nat \<Rightarrow> 'w runtime \<Rightarrow> (nat \<Rightarrow> 'w \<Rightarrow> (jsval + 'a) \<times> 'w) \<Rightarrow> 'w RetryOptions \<Rightarrow> int \<Rightarrow> nat \<Rightarrow> jsval \<Rightarrow> 'w
     \<Rightarrow> ('a settled \<times> 'w \<times> event list) option" where
  "attempts 0 rt fn options startTime attempt lastError w = None"
| "attempts (Suc fuel) rt fn options startTime attempt lastError w =
     (if js_le (Num (real attempt)) (the_maxRetries options) then
        (case beforeAttempt rt options startTime attempt lastError w of
           (Inl err, w1, ev1) \<Rightarrow> Some (Rejected err, w1, ev1)
         | (Inr u, w1, ev1) \<Rightarrow>
             (case fn attempt w1 of
                (Inr result, w2) \<Rightarrow> Some (Fulfilled result, w2, ev1 @ [Invoked attempt None])
              | (Inl error, w2) \<Rightarrow>
                  (case afterFailure rt options startTime attempt error w2 of
                     (Inl err, w3, ev3) \<Rightarrow>
                       Some (Rejected err, w3, ev1 @ Invoked attempt (Some error) # ev3)
                   | (Inr Break, w3, ev3) \<Rightarrow>
                       Some (after (ev1 @ Invoked attempt (Some error) # ev3)
                               (settle (exhausted rt options startTime error w3)))
                   | (Inr Continue, w3, ev3) \<Rightarrow>
                       map_option (after (ev1 @ Invoked attempt (Some error) # ev3))
                         (attempts fuel rt fn options startTime (Suc attempt) error w3))))
      else Some (settle (exhausted rt options startTime lastError w)))"

text \<open>
  \<open>smartRetry fuel rt fn options w\<close>: how the promise settles, the world then, and the
  calls made. Validation comes first, before the clock is read.
\<close>

definition smartRetry ::
  "nat \<Rightarrow> 'w runtime \<Rightarrow> (nat \<Rightarrow> 'w \<Rightarrow> (jsval + 'a) \<times> 'w) \<Rightarrow> 'w RetryOptions \<Rightarrow> 'w
     \<Rightarrow> ('a settled \<times> 'w \<times> event list) option" where
  "smartRetry fuel rt fn options w =
     (case validateOptions options of
        Some violation \<Rightarrow> Some (Rejected (ConfigError violation), w, [])
      | None \<Rightarrow>
          (case Date_now rt w of
             (startTime, w0) \<Rightarrow>
               if signalAborted options w0
               then Some (Rejected (AbortError \<lparr>totalAttempts = Num 0, totalElapsedMs = Num 0\<rparr>
                                      (signalReason options w0)),
                          w0, Clock startTime # polled options w0)
               else map_option (after (Clock startTime # polled options w0))
                      (attempts fuel rt fn options startTime 0 JUndefined w0)))"

section \<open>Reading a run\<close>

text \<open>The invocations of the operation in a run, in order, each with its rejection if any.\<close>

fun calls :: "event list \<Rightarrow> (nat \<times> jsval option) list" where
  "calls [] = []"
| "calls (Invoked a r # evs) = (a, r) # calls evs"
| "calls (ev # evs) = calls evs"

text \<open>The calls of the checks: readings of the clock and of the signal.\<close>

fun isCheck :: "event \<Rightarrow> bool" where
  "isCheck (Clock t) = True"
| "isCheck (Polled b) = True"
| "isCheck ev = False"

text \<open>The calls that belong to a retry: the classifier, the jitter, the hook and the sleep.\<close>

fun isRetryEvent :: "event \<Rightarrow> bool" where
  "isRetryEvent (Classify e a) = True"
| "isRetryEvent (Random r) = True"
| "isRetryEvent (Notify e a d) = True"
| "isRetryEvent (Sleep d) = True"
| "isRetryEvent ev = False"

text \<open>
  The delay of the retry after attempt \<open>attempt\<close>, before the clamp: the backoff for that
  index, multiplied by the random number drawn when jitter is on.
\<close>

definition plannedDelay :: "'w RetryOptions \<Rightarrow> nat \<Rightarrow> real \<Rightarrow> jsnum" where
  "plannedDelay options attempt rnd =
     (let delay = calculateBackoffDelay attempt (the_baseDelayMs options) (the_maxDelayMs options)
      in if the_jitter options then js_mul (Num rnd) delay else delay)"

text \<open>The budget left at a clock reading: \<^verbatim>\<open>timeoutMs - (now - startTime)\<close>.\<close>

definition remainingBudget :: "jsnum \<Rightarrow> int \<Rightarrow> int \<Rightarrow> jsnum" where
  "remainingBudget limit startTime now = js_sub limit (elapsedSince startTime now)"

text \<open>
  A run keeps its sleeps within the budget when every \<open>Sleep d\<close> comes with budget
  left at the clock reading before it, and \<open>d\<close> is the minimum of that remaining
  budget and the planned delay of the attempt that just failed. The walk through the
  calls carries the last clock reading, the last attempt invoked and the last random
  number drawn.
\<close>

fun sleepsClamped :: "'w RetryOptions \<Rightarrow> jsnum \<Rightarrow> int \<Rightarrow> int \<Rightarrow> nat \<Rightarrow> real \<Rightarrow> event list \<Rightarrow> bool" where
  "sleepsClamped options limit s now a rnd [] = True"
| "sleepsClamped options limit s now a rnd (Clock t # evs) = sleepsClamped options limit s t a rnd evs"
| "sleepsClamped options limit s now a rnd (Invoked a' r # evs) = sleepsClamped options limit s now a' rnd evs"
| "sleepsClamped options limit s now a rnd (Random x # evs) = sleepsClamped options limit s now a x evs"
| "sleepsClamped options limit s now a rnd (Sleep d # evs) =
     (\<not> js_le (remainingBudget limit s now) (Num 0)
      \<and> d = Math_min (plannedDelay options a rnd) (remainingBudget limit s now)
      \<and> sleepsClamped options limit s now a rnd evs)"
| "sleepsClamped options limit s now a rnd (Classify e a' # evs) = sleepsClamped options limit s now a rnd evs"
| "sleepsClamped options limit s now a rnd (Notify e a' d # evs) = sleepsClamped options limit s now a rnd evs"
| "sleepsClamped options limit s now a rnd (Polled b # evs) = sleepsClamped options limit s now a rnd evs"

text \<open>The first clock reading of a run is its start time.\<close>

definition budgetRespected :: "'w RetryOptions \<Rightarrow> jsnum \<Rightarrow> event list \<Rightarrow> bool" where
  "budgetRespected options limit evs =
     (case evs of Clock s # rest \<Rightarrow> sleepsClamped options limit s s 0 0 rest | _ \<Rightarrow> True)"

text \<open>
  Between a call of the classifier that lets the retry go ahead and the clamp, a run
  reads the clock for the timeout check, reads the signal if there is one, and draws
  the random number if jitter is on. \<open>clampReading evs\<close> is the clock reading of the
  clamp, with the calls that follow it, when \<open>evs\<close> are the calls after the
  classifier's; there is none when the run ended or was cancelled before the clamp.
\<close>

fun skipPoll :: "event list \<Rightarrow> event list" where
  "skipPoll (Polled False # evs) = evs"
| "skipPoll evs = evs"

fun skipRandom :: "event list \<Rightarrow> event list" where
  "skipRandom (Random x # evs) = evs"
| "skipRandom evs = evs"

definition clampReading :: "event list \<Rightarrow> (int \<times> event list) option" where
  "clampReading evs =
     (case evs of
        Clock t1 # rest \<Rightarrow>
          (case skipRandom (skipPoll rest) of Clock t # post \<Rightarrow> Some (t, post) | _ \<Rightarrow> None)
      | _ \<Rightarrow> None)"

text \<open>
  A run that settled as \<open>r\<close> reports its timeouts when every clamp that found the
  remaining budget \<^verbatim>\<open><= 0\<close> made the last call of the run, and \<open>r\<close> is the rejection
  with a TimeoutError that carries \<open>attempt + 1\<close> attempts, the elapsed time of that
  reading and the error of the attempt as cause.
\<close>

fun timeoutsReported :: "jsnum \<Rightarrow> int \<Rightarrow> 'a settled \<Rightarrow> event list \<Rightarrow> bool" where
  "timeoutsReported limit s r [] = True"
| "timeoutsReported limit s r (Classify e a # evs) =
     ((case clampReading evs of
         None \<Rightarrow> True
       | Some (t, post) \<Rightarrow>
           js_le (remainingBudget limit s t) (Num 0) \<longrightarrow>
             post = []
           \<and> r = Rejected (TimeoutError \<lparr>totalAttempts = Num (real (a + 1)),
                                         totalElapsedMs = elapsedSince s t\<rparr> e))
      \<and> timeoutsReported limit s r evs)"
| "timeoutsReported limit s r (ev # evs) = timeoutsReported limit s r evs"

definition timeoutReported :: "jsnum \<Rightarrow> 'a settled \<Rightarrow> event list \<Rightarrow> bool" where
  "timeoutReported limit r evs =
     (case evs of Clock s # rest \<Rightarrow> timeoutsReported limit s r rest | _ \<Rightarrow> True)"

fun notClassify :: "event \<Rightarrow> bool" where
  "notClassify (Classify e a) = False"
| "notClassify ev = True"

text \<open>The deadline of a run that started at \<open>startTime\<close> has passed at the time \<open>now\<close>.\<close>

definition pastDeadline :: "jsnum \<Rightarrow> int \<Rightarrow> int \<Rightarrow> bool" where
  "pastDeadline limit startTime now = js_gt (elapsedSince startTime now) limit"

section \<open>Conditions on the configuration and the environment\<close>

text \<open>The operation rejects whenever it is invoked.\<close>

definition alwaysFails :: "(nat \<Rightarrow> 'w \<Rightarrow> (jsval + 'a) \<times> 'w) \<Rightarrow> bool" where
  "alwaysFails fn = (\<forall>a w. \<exists>e w'. fn a w = (Inl e, w'))"

text \<open>The retry predicate in force returns true for every error the operation rejects with.\<close>

definition alwaysRetries :: "'w RetryOptions \<Rightarrow> (nat \<Rightarrow> 'w \<Rightarrow> (jsval + 'a) \<times> 'w) \<Rightarrow> bool" where
  "alwaysRetries options fn =
     (\<forall>a w e w1. fn a w = (Inl e, w1) \<longrightarrow> (\<forall>a' w2. \<exists>w3. the_retryOn options e a' w2 = (Inr True, w3)))"

text \<open>A predicate was supplied, and it returns false whatever it is given.\<close>

definition neverRetries :: "'w RetryOptions \<Rightarrow> bool" where
  "neverRetries options =
     (case retryOn options of
        None \<Rightarrow> False
      | Some p \<Rightarrow> \<forall>e a w. \<exists>w'. p e a w = (Inr False, w'))"

text \<open>
  No timeout intervenes: any two readings of the clock differ by less than the budget,
  if one is set. No cancellation intervenes: the signal, if any, is never aborted and no
  abort event arrives during a sleep. The hook, if any, returns normally.
\<close>

definition timeoutNeverReached :: "'w runtime \<Rightarrow> 'w RetryOptions \<Rightarrow> bool" where
  "timeoutNeverReached rt options =
     (case timeoutMs options of
        None \<Rightarrow> True
      | Some limit \<Rightarrow> \<forall>w w'. js_lt (elapsedSince (fst (Date_now rt w)) (fst (Date_now rt w'))) limit)"

definition neverCancelled :: "'w runtime \<Rightarrow> 'w RetryOptions \<Rightarrow> bool" where
  "neverCancelled rt options =
     (case signal options of
        None \<Rightarrow> True
      | Some sg \<Rightarrow> (\<forall>w. \<not> aborted sg w) \<and> (\<forall>ms w. \<not> fst (timer rt ms w)))"

definition hookNeverThrows :: "'w RetryOptions \<Rightarrow> bool" where
  "hookNeverThrows options =
     (case onRetry options of
        None \<Rightarrow> True
      | Some hook \<Rightarrow> \<forall>e a d w. \<exists>w'. hook e a d w = (Inr (), w'))"

text \<open>
  The first two checks of the validation fire: \<^verbatim>\<open>maxRetries < 0\<close>, and
  \<^verbatim>\<open>baseDelayMs <= 0\<close>, for an option that is provided.
\<close>

definition maxRetriesViolated :: "'w RetryOptions \<Rightarrow> bool" where
  "maxRetriesViolated options = (case maxRetries options of None \<Rightarrow> False | Some m \<Rightarrow> js_lt m (Num 0))"

definition baseDelayViolated :: "'w RetryOptions \<Rightarrow> bool" where
  "baseDelayViolated options = (case baseDelayMs options of None \<Rightarrow> False | Some b \<Rightarrow> js_le b (Num 0))"

text \<open>
  The constraints on a configuration, as comparisons of the values in force (given, or
  the default): \<^verbatim>\<open>maxRetries >= 0\<close>, \<^verbatim>\<open>baseDelayMs > 0\<close>,
  \<^verbatim>\<open>maxDelayMs >= baseDelayMs\<close>, and \<^verbatim>\<open>timeoutMs > 0\<close> when a timeout is provided.
  A configuration is invalid when it violates one of them.
\<close>

definition meetsMaxRetries :: "'w RetryOptions \<Rightarrow> bool" where
  "meetsMaxRetries options = js_ge (the_maxRetries options) (Num 0)"

definition meetsBaseDelay :: "'w RetryOptions \<Rightarrow> bool" where
  "meetsBaseDelay options = js_gt (the_baseDelayMs options) (Num 0)"

definition meetsMaxDelay :: "'w RetryOptions \<Rightarrow> bool" where
  "meetsMaxDelay options = js_ge (the_maxDelayMs options) (the_baseDelayMs options)"

definition meetsTimeout :: "'w RetryOptions \<Rightarrow> bool" where
  "meetsTimeout options = (case timeoutMs options of None \<Rightarrow> True | Some t \<Rightarrow> js_gt t (Num 0))"

definition invalidOptions :: "'w RetryOptions \<Rightarrow> bool" where
  "invalidOptions options =
     (\<not> meetsMaxRetries options \<or> \<not> meetsBaseDelay options \<or> \<not> meetsMaxDelay options
      \<or> \<not> meetsTimeout options)"



section \<open>Properties of steps\<close>

text \<open>
  \<open>safe P E R m\<close>: whatever the world, each call the step \<open>m\<close> makes satisfies \<open>P\<close>,
  an error it throws satisfies \<open>E\<close> and a value it returns satisfies \<open>R\<close>.
\<close>

definition safe :: "(event \<Rightarrow> bool) \<Rightarrow> (thrown \<Rightarrow> bool) \<Rightarrow> ('x \<Rightarrow> bool) \<Rightarrow> ('w, 'x) step \<Rightarrow> bool" where
  "safe P E R m = (\<forall>w r w' ev. m w = (r, w', ev) \<longrightarrow>
      list_all P ev \<and> (case r of Inl e \<Rightarrow> E e | Inr x \<Rightarrow> R x))"


text \<open>
  The attempt count an error reports is \<open>n\<close>; for the exhaustion error, which reports
  \<^verbatim>\<open>maxRetries + 1\<close>, when \<^verbatim>\<open>maxRetries\<close> is an integer.
\<close>

definition countsAttempts :: "'w RetryOptions \<Rightarrow> nat \<Rightarrow> thrown \<Rightarrow> bool" where
  "countsAttempts options n err =
     (case err of
        TimeoutError md c \<Rightarrow> totalAttempts md = Num (real n)
      | AbortError md c \<Rightarrow> totalAttempts md = Num (real n)
      | RetryExhaustedError md c \<Rightarrow>
          totalAttempts md = js_add (the_maxRetries options) (Num 1)
          \<and> (Number_isInteger (the_maxRetries options) \<longrightarrow> totalAttempts md = Num (real n))
      | _ \<Rightarrow> True)"

text \<open>The sleeps of a stretch of calls are within the budget from whatever state it starts.\<close>

definition anyState :: "'w RetryOptions \<Rightarrow> jsnum \<Rightarrow> int \<Rightarrow> event list \<Rightarrow> bool" where
  "anyState options limit s evs = (\<forall>now a rnd. sleepsClamped options limit s now a rnd evs)"

section \<open>Inputs for the concrete runs\<close>

definition e503 :: jsval where
  "e503 = JObject [(''message'', JString ''HTTP 503''),
                   (''response'', JObject [(''status'', JNumber (Num 503))])]"

definition e404 :: jsval where
  "e404 = JObject [(''status'', JNumber (Num 404)),
                   (''response'', JObject [(''status'', JNumber (Num 503))])]"

definition eplain :: jsval where
  "eplain = JObject [(''message'', JString ''fetch failed'')]"

definition ereset :: jsval where
  "ereset = JObject [(''code'', JString ''ECONNRESET''), (''status'', JNumber (Num 404))]"

text \<open>
  A world that is the clock itself, in milliseconds: reading it takes no time, a timer
  advances it by the duration, rounded up, and no abort event ever arrives. The
  operation takes 200 ms and rejects with a 503.
\<close>

definition virtualClock :: "int runtime" where
  "virtualClock = \<lparr>Date_now = (\<lambda>w. (w, w)), Math_random = (\<lambda>w. (1 / 2, w)),
      timer = (\<lambda>ms w. (False, w + (case ms of Num r \<Rightarrow> \<lceil>r\<rceil> | _ \<Rightarrow> 0)))\<rparr>"

definition failing :: "nat \<Rightarrow> int \<Rightarrow> (jsval + jsval) \<times> int" where
  "failing attempt w = (Inl e503, w + 200)"

text \<open>A second platform, on which the abort event arrives 50 ms into every sleep.\<close>

definition interruptingClock :: "int runtime" where
  "interruptingClock = \<lparr>Date_now = (\<lambda>w. (w, w)), Math_random = (\<lambda>w. (1 / 2, w)),
      timer = (\<lambda>ms w. (True, w + 50))\<rparr>"

definition quietSignal :: "int AbortSignal" where
  "quietSignal = \<lparr>aborted = (\<lambda>w. False), reason = (\<lambda>w. JUndefined)\<rparr>"

definition abortedSignal :: "int AbortSignal" where
  "abortedSignal = \<lparr>aborted = (\<lambda>w. True), reason = (\<lambda>w. JString ''cancelled'')\<rparr>"

definition laterSignal :: "int AbortSignal" where
  "laterSignal = \<lparr>aborted = (\<lambda>w. 250 \<le> w), reason = (\<lambda>w. JString ''user cancelled'')\<rparr>"

definition optsExhaust :: "int RetryOptions" where
  "optsExhaust = \<lparr>maxRetries = Some (Num 2), baseDelayMs = Some (Num 100), maxDelayMs = None,
      jitter = Some False, retryOn = None, onRetry = Some (\<lambda>e a d w. (Inr (), w)),
      timeoutMs = None, signal = Some quietSignal\<rparr>"

definition optsReject :: "int RetryOptions" where
  "optsReject = \<lparr>maxRetries = Some (Num 3), baseDelayMs = None, maxDelayMs = None,
      jitter = None, retryOn = Some (\<lambda>e a w. (Inr False, w)), onRetry = None,
      timeoutMs = None, signal = None\<rparr>"

definition optsSingle :: "int RetryOptions" where
  "optsSingle = \<lparr>maxRetries = Some (Num 0), baseDelayMs = None, maxDelayMs = None,
      jitter = None, retryOn = Some (\<lambda>e a w. (Inr False, w)), onRetry = None,
      timeoutMs = None, signal = None\<rparr>"

definition optsBudget :: "int RetryOptions" where
  "optsBudget = \<lparr>maxRetries = Some (Num 10), baseDelayMs = Some (Num 400), maxDelayMs = None,
      jitter = Some False, retryOn = None, onRetry = None,
      timeoutMs = Some (Num 500), signal = None\<rparr>"

text \<open>A third platform, on which every reading of the clock takes 100 ms.\<close>

definition tickingClock :: "int runtime" where
  "tickingClock = \<lparr>Date_now = (\<lambda>w. (w, w + 100)), Math_random = (\<lambda>w. (1 / 2, w)),
      timer = (\<lambda>ms w. (False, w + (case ms of Num r \<Rightarrow> \<lceil>r\<rceil> | _ \<Rightarrow> 0)))\<rparr>"

text \<open>The same budget with a hook that takes one second.\<close>

definition optsSlowHook :: "int RetryOptions" where
  "optsSlowHook = \<lparr>maxRetries = Some (Num 10), baseDelayMs = Some (Num 400), maxDelayMs = None,
      jitter = Some False, retryOn = None, onRetry = Some (\<lambda>e a d w. (Inr (), w + 1000)),
      timeoutMs = Some (Num 500), signal = None\<rparr>"

definition optsCancelled :: "int RetryOptions" where
  "optsCancelled = \<lparr>maxRetries = None, baseDelayMs = None, maxDelayMs = None,
      jitter = None, retryOn = None, onRetry = None, timeoutMs = None,
      signal = Some abortedSignal\<rparr>"

definition optsInterrupted :: "int RetryOptions" where
  "optsInterrupted = \<lparr>maxRetries = Some (Num 5), baseDelayMs = Some (Num 1000), maxDelayMs = None,
      jitter = Some False, retryOn = None, onRetry = None, timeoutMs = None,
      signal = Some laterSignal\<rparr>"



definition optsLowCap :: "int RetryOptions" where
  "optsLowCap = \<lparr>maxRetries = None, baseDelayMs = None, maxDelayMs = Some (Num 100),
      jitter = None, retryOn = None, onRetry = None, timeoutMs = None, signal = None\<rparr>"




definition optsHalf :: "int RetryOptions" where
  "optsHalf = \<lparr>maxRetries = Some (Num (1 / 2)), baseDelayMs = Some (Num 100), maxDelayMs = None,
      jitter = Some False, retryOn = None, onRetry = None, timeoutMs = None, signal = None\<rparr>"

definition optsNoCount :: "int RetryOptions" where
  "optsNoCount = \<lparr>maxRetries = Some NaN, baseDelayMs = None, maxDelayMs = None,
      jitter = None, retryOn = None, onRetry = None, timeoutMs = None, signal = None\<rparr>"


section \<open>The backoff delay\<close>

lemma js_mul_pow2_positive:
  assumes "js_gt base (Num 0)"
  shows "(\<exists>p. 0 < p \<and> js_mul base (Math_pow2 n) = Num p) \<or> js_mul base (Math_pow2 n) = PosInf"
  using assms by (cases base) (auto simp: js_gt_def Math_pow2_def overflow_def)

text \<open>
  Claim C6. For every retry index \<open>n\<close>, every base greater than 0 and every cap that is
  at least the base, \<open>calculateBackoffDelay n base cap\<close> is the minimum of the cap and
  \<open>base * 2 ^ n\<close>, as JavaScript computes that product; when the product is not finite
  the result is the cap itself; and as long as the product does not overflow the result
  is the minimum of the two real numbers. The function is a function of its three
  arguments alone: it reads and changes nothing else.
\<close>

theorem calculateBackoffDelay_formula:
  assumes "js_gt base (Num 0)" and "js_ge cap base"
  shows "calculateBackoffDelay n base cap = Math_min cap (js_mul base (Math_pow2 n))
       \<and> (\<not> Number_isFinite (js_mul base (Math_pow2 n)) \<longrightarrow> calculateBackoffDelay n base cap = cap)
       \<and> (\<forall>b c. base = Num b \<and> cap = Num c \<and> n \<le> 1023 \<and> b * 2 ^ n < 2 ^ 1024
             \<longrightarrow> calculateBackoffDelay n base cap = Num (min c (b * 2 ^ n)))"
proof -
  have cap: "cap \<noteq> NaN" "js_le cap PosInf"
    using assms by (cases base; cases cap; simp add: js_gt_def js_ge_def)+
  have formula: "calculateBackoffDelay n base cap = Math_min cap (js_mul base (Math_pow2 n))"
    using js_mul_pow2_positive[OF assms(1), of n] cap
    by (auto simp: calculateBackoffDelay_def Let_def Math_min_def)
  have guard: "\<not> Number_isFinite (js_mul base (Math_pow2 n)) \<longrightarrow> calculateBackoffDelay n base cap = cap"
    by (simp add: calculateBackoffDelay_def Let_def)
  have exact: "calculateBackoffDelay n base cap = Num (min c (b * 2 ^ n))"
    if "base = Num b" "cap = Num c" "n \<le> 1023" "b * 2 ^ n < 2 ^ 1024" for b c
  proof -
    have "0 < b" using assms(1) that by (simp add: js_gt_def)
    hence "\<bar>b * 2 ^ n\<bar> < 2 ^ 1024" using that by simp
    thus ?thesis using that
      by (simp add: calculateBackoffDelay_def Let_def Math_pow2_def overflow_def Math_min_def min_def)
  qed
  show ?thesis using formula guard exact by blast
qed

theorem calculateBackoffDelay_formula_witness:
  "js_gt (Num 300) (Num 0) \<and> js_ge (Num 5000) (Num 300)
   \<and> calculateBackoffDelay 4 (Num 300) (Num 5000) = Num 4800
   \<and> calculateBackoffDelay 5 (Num 300) (Num 5000) = Num 5000
   \<and> \<not> Number_isFinite (js_mul (Num 300) (Math_pow2 1024))
   \<and> calculateBackoffDelay 1024 (Num 300) (Num 5000) = Num 5000"
proof -
  have base: "js_gt (Num 300) (Num 0)" and cap: "js_ge (Num 5000) (Num 300)"
    by (simp_all add: js_gt_def js_ge_def)
  have inf: "\<not> Number_isFinite (js_mul (Num 300) (Math_pow2 1024))"
    by (simp add: Math_pow2_def)
  from calculateBackoffDelay_formula[OF base cap, of 4]
  have four: "calculateBackoffDelay 4 (Num 300) (Num 5000) = Num 4800"
    by (simp add: Math_min_def Math_pow2_def overflow_def)
  from calculateBackoffDelay_formula[OF base cap, of 5]
  have five: "calculateBackoffDelay 5 (Num 300) (Num 5000) = Num 5000"
    by (simp add: Math_min_def Math_pow2_def overflow_def)
  from calculateBackoffDelay_formula[OF base cap, of 1024] inf
  have over: "calculateBackoffDelay 1024 (Num 300) (Num 5000) = Num 5000" by blast
  show ?thesis using base cap inf four five over by blast
qed

section \<open>The status lookup and the two policies\<close>

lemma integerStatus_statusField:
  "(if js_in ''status'' (JObject ps) then integerStatus (js_get (JObject ps) ''status'') else None)
     = statusField ps"
  by (auto simp: js_in_def js_get_def integerStatus_def statusField_def
           split: option.splits jsval.splits)

lemma response_statusField:
  "(if js_in ''response'' (JObject ps) then
      (let response = js_get (JObject ps) ''response'' in
         if response \<noteq> JNull \<and> response \<noteq> JUndefined \<and> typeof response = ''object''
            \<and> js_in ''status'' response
         then integerStatus (js_get response ''status'')
         else None)
    else None) = (case map_of ps ''response'' of
                    Some (JObject rs) \<Rightarrow> statusField rs
                  | _ \<Rightarrow> None)"
  by (auto simp: js_in_def js_get_def Let_def integerStatus_def statusField_def
           split: option.splits jsval.splits)

text \<open>The code's lookup is the spec's: the error's own status first, then the response's.\<close>

lemma extractHttpStatus_foundStatus: "extractHttpStatus e = foundStatus e"
proof (cases e)
  case (JObject ps)
  have "extractHttpStatus (JObject ps) = foundStatus (JObject ps)"
    unfolding extractHttpStatus_def foundStatus_def
    by (simp only: integerStatus_statusField response_statusField) simp
  thus ?thesis using JObject by simp
qed (simp_all add: extractHttpStatus_def foundStatus_def)

lemma statusField_Num: "statusField ps = Some s \<Longrightarrow> \<exists>r. s = Num r \<and> r = of_int \<lfloor>r\<rfloor>"
  by (cases s) (auto simp: statusField_def split: option.splits jsval.splits if_splits)

lemma foundStatus_Num: "foundStatus e = Some s \<Longrightarrow> \<exists>r. s = Num r \<and> r = of_int \<lfloor>r\<rfloor>"
  by (auto simp: foundStatus_def split: jsval.splits option.splits dest: statusField_Num)

lemma isNetworkError_code: "isNetworkError e \<Longrightarrow> hasRetryableCode e"
  by (cases e) (auto simp: isNetworkError_def hasRetryableCode_def js_in_def js_get_def
        split: option.splits jsval.splits if_splits)

lemma hasRetryableCode_object: "hasRetryableCode (JObject ps) \<Longrightarrow> isNetworkError (JObject ps)"
  by (auto simp: isNetworkError_def hasRetryableCode_def js_in_def js_get_def
        split: option.splits jsval.splits if_splits)

lemma hasRetryableCode_policy: "hasRetryableCode e \<Longrightarrow> defaultRetryPolicy e"
proof (cases e)
  case (JObject ps)
  assume "hasRetryableCode e"
  thus ?thesis using JObject hasRetryableCode_object by (simp add: defaultRetryPolicy_def)
qed (simp_all add: defaultRetryPolicy_def extractHttpStatus_def)

lemma foundStatus_e503: "foundStatus e503 = Some (Num 503)"
  by (simp add: e503_def foundStatus_def statusField_def)

lemma foundStatus_e404: "foundStatus e404 = Some (Num 404)"
  by (simp add: e404_def foundStatus_def statusField_def)

lemma foundStatus_eplain: "foundStatus eplain = None"
  by (simp add: eplain_def foundStatus_def statusField_def)

text \<open>
  Claim C7. The default policy retries every error that has a string \<^verbatim>\<open>code\<close> in the
  fixed set. For any other error, when a status is found (on the error itself first,
  then on its response object), it retries for 429 and for 500 to 599, does not retry
  for 400 to 499 other than 429, and retries for a status outside 400 to 599; when no
  status is found it retries.
\<close>

theorem defaultRetryPolicy_table:
  "(hasRetryableCode e \<longrightarrow> defaultRetryPolicy e)
   \<and> (\<not> hasRetryableCode e \<longrightarrow>
        (\<forall>r. foundStatus e = Some (Num r) \<longrightarrow>
           ((r = 429 \<or> (500 \<le> r \<and> r \<le> 599)) \<longrightarrow> defaultRetryPolicy e)
         \<and> ((400 \<le> r \<and> r \<le> 499 \<and> r \<noteq> 429) \<longrightarrow> \<not> defaultRetryPolicy e)
         \<and> ((r < 400 \<or> 599 < r) \<longrightarrow> defaultRetryPolicy e))
      \<and> (foundStatus e = None \<longrightarrow> defaultRetryPolicy e))"
proof (cases "hasRetryableCode e")
  case True
  thus ?thesis using hasRetryableCode_policy by simp
next
  case False
  hence net: "\<not> isNetworkError e" using isNetworkError_code by blast
  show ?thesis
  proof (cases "foundStatus e")
    case None
    thus ?thesis using False net
      by (simp add: defaultRetryPolicy_def extractHttpStatus_foundStatus)
  next
    case (Some s)
    then obtain r where "s = Num r" using foundStatus_Num by blast
    thus ?thesis using Some False net
      by (auto simp: defaultRetryPolicy_def extractHttpStatus_foundStatus js_eq_def js_ge_def)
  qed
qed

theorem defaultRetryPolicy_table_witness:
  "hasRetryableCode ereset \<and> defaultRetryPolicy ereset
   \<and> \<not> hasRetryableCode e503 \<and> foundStatus e503 = Some (Num 503) \<and> defaultRetryPolicy e503
   \<and> \<not> hasRetryableCode e404 \<and> foundStatus e404 = Some (Num 404) \<and> \<not> defaultRetryPolicy e404
   \<and> \<not> hasRetryableCode eplain \<and> foundStatus eplain = None \<and> defaultRetryPolicy eplain"
proof -
  have code: "hasRetryableCode ereset" "\<not> hasRetryableCode e503" "\<not> hasRetryableCode e404"
    "\<not> hasRetryableCode eplain"
    by (simp_all add: ereset_def e503_def e404_def eplain_def hasRetryableCode_def
          RETRYABLE_NETWORK_CODES_def)
  from defaultRetryPolicy_table[of ereset] code have a: "defaultRetryPolicy ereset" by blast
  from defaultRetryPolicy_table[of e503] code foundStatus_e503
  have b: "defaultRetryPolicy e503" by simp
  from defaultRetryPolicy_table[of e404] code foundStatus_e404
  have c: "\<not> defaultRetryPolicy e404" by simp
  from defaultRetryPolicy_table[of eplain] code foundStatus_eplain
  have d: "defaultRetryPolicy eplain" by simp
  show ?thesis using code a b c d foundStatus_e503 foundStatus_e404 foundStatus_eplain by blast
qed

text \<open>
  Claim C8. \<open>isRetryableHttpError\<close> looks for the status on the error and then on its
  response object, and is true exactly when the status found is 429 or from 500 to
  599; so it is false for a status from 400 to 499 other than 429, and false when no
  status is found.
\<close>

theorem isRetryableHttpError_status:
  "(isRetryableHttpError e \<longleftrightarrow>
      (\<exists>r. foundStatus e = Some (Num r) \<and> (r = 429 \<or> (500 \<le> r \<and> r \<le> 599))))
   \<and> (\<forall>r. foundStatus e = Some (Num r) \<and> 400 \<le> r \<and> r \<le> 499 \<and> r \<noteq> 429
          \<longrightarrow> \<not> isRetryableHttpError e)
   \<and> (foundStatus e = None \<longrightarrow> \<not> isRetryableHttpError e)"
proof (cases "foundStatus e")
  case None
  thus ?thesis by (simp add: isRetryableHttpError_def extractHttpStatus_foundStatus)
next
  case (Some s)
  then obtain r where "s = Num r" using foundStatus_Num by blast
  thus ?thesis using Some
    by (auto simp: isRetryableHttpError_def extractHttpStatus_foundStatus js_eq_def js_ge_def)
qed

theorem isRetryableHttpError_status_witness:
  "foundStatus e503 = Some (Num 503) \<and> isRetryableHttpError e503
   \<and> foundStatus e404 = Some (Num 404) \<and> \<not> isRetryableHttpError e404
   \<and> foundStatus eplain = None \<and> \<not> isRetryableHttpError eplain"
proof -
  from isRetryableHttpError_status[of e503] foundStatus_e503
  have a: "isRetryableHttpError e503" by simp
  from isRetryableHttpError_status[of e404] foundStatus_e404
  have b: "\<not> isRetryableHttpError e404" by simp
  from isRetryableHttpError_status[of eplain] foundStatus_eplain
  have c: "\<not> isRetryableHttpError eplain" by simp
  show ?thesis using a b c foundStatus_e503 foundStatus_e404 foundStatus_eplain by blast
qed

section \<open>Steps and the loop, case by case\<close>

lemma calls_append: "calls (xs @ ys) = calls xs @ calls ys"
  by (induction xs rule: calls.induct) simp_all

lemma calls_no_invocation:
  "list_all (\<lambda>ev. \<forall>a r. ev \<noteq> Invoked a r) evs \<Longrightarrow> calls evs = []"
  by (induction evs rule: calls.induct) simp_all

lemma calls_polled: "calls (polled options w) = []"
  by (simp add: polled_def split: option.splits)

lemma polled_not_invoked: "Invoked a r \<notin> set (polled options w)"
  by (simp add: polled_def split: option.splits)

lemma polled_not_classify: "Classify e a \<notin> set (polled options w)"
  by (simp add: polled_def split: option.splits)

lemma polled_not_retry: "filter isRetryEvent (polled options w) = []"
  by (simp add: polled_def split: option.splits)

lemma isCheck_polled: "list_all isCheck (polled options w)"
  by (simp add: polled_def split: option.splits)

lemma isCheck_calls: "list_all isCheck ev \<Longrightarrow> calls ev = []"
  by (induction ev rule: calls.induct) simp_all

lemma isCheck_not_invoked: "list_all isCheck ev \<Longrightarrow> Invoked a r \<notin> set ev"
  by (induction ev) auto

lemma isCheck_not_retry: "list_all isCheck ev \<Longrightarrow> filter isRetryEvent ev = []"
  by (induction ev rule: calls.induct) simp_all

lemma andThenE:
  assumes "andThen m f w = (r, w', evs)"
  obtains (stopped) e where "m w = (Inl e, w', evs)" and "r = Inl e"
        | (went) x w1 ev1 ev2 where "m w = (Inr x, w1, ev1)" and "f x w1 = (r, w', ev2)"
            and "evs = ev1 @ ev2"
  using assms by (auto simp: andThen_def split: prod.splits sum.splits)

lemma attempts_cases:
  assumes "attempts (Suc k) rt fn options s a le w = Some (r, w', evs)"
  obtains (finished) "\<not> js_le (Num (real a)) (the_maxRetries options)"
            and "settle (exhausted rt options s le w) = (r, w', evs)"
        | (refused) err where "js_le (Num (real a)) (the_maxRetries options)"
            and "beforeAttempt rt options s a le w = (Inl err, w', evs)" and "r = Rejected err"
        | (succeeded) u w1 ev1 v where "js_le (Num (real a)) (the_maxRetries options)"
            and "beforeAttempt rt options s a le w = (Inr u, w1, ev1)"
            and "fn a w1 = (Inr v, w')" and "r = Fulfilled v" and "evs = ev1 @ [Invoked a None]"
        | (threw) u w1 ev1 e w2 err ev3 where "js_le (Num (real a)) (the_maxRetries options)"
            and "beforeAttempt rt options s a le w = (Inr u, w1, ev1)"
            and "fn a w1 = (Inl e, w2)"
            and "afterFailure rt options s a e w2 = (Inl err, w', ev3)"
            and "r = Rejected err" and "evs = ev1 @ Invoked a (Some e) # ev3"
        | (broke) u w1 ev1 e w2 w3 ev3 ev4 where "js_le (Num (real a)) (the_maxRetries options)"
            and "beforeAttempt rt options s a le w = (Inr u, w1, ev1)"
            and "fn a w1 = (Inl e, w2)"
            and "afterFailure rt options s a e w2 = (Inr Break, w3, ev3)"
            and "settle (exhausted rt options s e w3) = (r, w', ev4)"
            and "evs = ev1 @ Invoked a (Some e) # ev3 @ ev4"
        | (continued) u w1 ev1 e w2 w3 ev3 ev4 where "js_le (Num (real a)) (the_maxRetries options)"
            and "beforeAttempt rt options s a le w = (Inr u, w1, ev1)"
            and "fn a w1 = (Inl e, w2)"
            and "afterFailure rt options s a e w2 = (Inr Continue, w3, ev3)"
            and "attempts k rt fn options s (Suc a) e w3 = Some (r, w', ev4)"
            and "evs = ev1 @ Invoked a (Some e) # ev3 @ ev4"
  using assms
  by (auto simp: after_def split: if_splits prod.splits sum.splits control.splits)

lemma smartRetry_cases:
  assumes "smartRetry fuel rt fn options w = Some (r, w', evs)"
  obtains (invalid) c where "validateOptions options = Some c" and "r = Rejected (ConfigError c)"
            and "w' = w" and "evs = []"
        | (cancelled) s where "validateOptions options = None" and "Date_now rt w = (s, w')"
            and "signalAborted options w'"
            and "r = Rejected (AbortError \<lparr>totalAttempts = Num 0, totalElapsedMs = Num 0\<rparr>
                                 (signalReason options w'))"
            and "evs = Clock s # polled options w'"
        | (ran) s w0 evs' where "validateOptions options = None" and "Date_now rt w = (s, w0)"
            and "\<not> signalAborted options w0"
            and "attempts fuel rt fn options s 0 JUndefined w0 = Some (r, w', evs')"
            and "evs = Clock s # polled options w0 @ evs'"
  using assms
  by (auto simp: smartRetry_def after_def split: option.splits prod.splits if_splits)

lemma settle_exhausted:
  assumes "settle (exhausted rt options s le w) = (r, w', ev)"
  obtains t where "r = Rejected (RetryExhaustedError
                       \<lparr>totalAttempts = js_add (the_maxRetries options) (Num 1),
                        totalElapsedMs = elapsedSince s t\<rparr> le)"
    and "ev = [Clock t]" and "Date_now rt w = (t, w')"
  using assms
  by (auto simp: settle_def exhausted_def andThen_def dateNow_def throw_def split: prod.splits)

text \<open>The rules for \<open>safe\<close>, one for each step of the loop body.\<close>

lemma safeD:
  assumes "safe P E R m" and "m w = (r, w', ev)"
  shows "list_all P ev" and "\<And>e. r = Inl e \<Longrightarrow> E e" and "\<And>x. r = Inr x \<Longrightarrow> R x"
proof -
  from assms have both: "list_all P ev \<and> (case r of Inl e \<Rightarrow> E e | Inr x \<Rightarrow> R x)"
    unfolding safe_def by blast
  show "list_all P ev" using both by simp
  show "\<And>e. r = Inl e \<Longrightarrow> E e" using both by simp
  show "\<And>x. r = Inr x \<Longrightarrow> R x" using both by simp
qed

lemma safe_ret: "R x \<Longrightarrow> safe P E R (ret x)"
  by (simp add: safe_def ret_def)

lemma safe_throw: "E e \<Longrightarrow> safe P E R (throw e)"
  by (simp add: safe_def throw_def)

lemma safe_reading: "(\<And>w. R (f w)) \<Longrightarrow> safe P E R (reading f)"
  by (auto simp: safe_def reading_def)

lemma safe_dateNow:
  "(\<And>t. P (Clock t)) \<Longrightarrow> (\<And>w. R (fst (Date_now rt w))) \<Longrightarrow> safe P E R (dateNow rt)"
  by (auto simp: safe_def dateNow_def split: prod.splits) (metis fst_conv)

lemma safe_mathRandom: "(\<And>r. P (Random r)) \<Longrightarrow> safe P E (\<lambda>r. True) (mathRandom rt)"
  by (auto simp: safe_def mathRandom_def split: prod.splits)

lemma safe_andThen:
  assumes "safe P E R1 m" and "\<And>x. R1 x \<Longrightarrow> safe P E R (f x)"
  shows "safe P E R (andThen m f)"
  unfolding safe_def
proof (intro allI impI)
  fix w r w' ev
  assume run: "andThen m f w = (r, w', ev)"
  show "list_all P ev \<and> (case r of Inl e \<Rightarrow> E e | Inr x \<Rightarrow> R x)"
    using run
  proof (cases rule: andThenE)
    case (stopped e)
    thus ?thesis using safeD[OF assms(1) stopped(1)] by simp
  next
    case (went x w1 ev1 ev2)
    have "R1 x" using safeD(3)[OF assms(1) went(1)] by simp
    from assms(2)[OF this] went(2) have "list_all P ev2 \<and> (case r of Inl e \<Rightarrow> E e | Inr x \<Rightarrow> R x)"
      by (auto simp: safe_def)
    thus ?thesis using safeD(1)[OF assms(1) went(1)] went(3) by simp
  qed
qed

lemma safe_checkTimeout:
  assumes "\<And>t. P (Clock t)"
    and "\<And>limit w. timeoutMs options = Some limit
           \<Longrightarrow> js_ge (elapsedSince s (fst (Date_now rt w))) limit
           \<Longrightarrow> E (TimeoutError \<lparr>totalAttempts = Num (real made),
                  totalElapsedMs = elapsedSince s (fst (Date_now rt w))\<rparr> cause)"
  shows "safe P E (\<lambda>u. True) (checkTimeout rt options s made cause)"
proof (cases "timeoutMs options")
  case None
  thus ?thesis by (simp add: checkTimeout_def safe_ret)
next
  case (Some limit)
  have "safe P E (\<lambda>u. True) (andThen (dateNow rt) (\<lambda>now.
            let elapsed = elapsedSince s now in
            if js_ge elapsed limit
            then throw (TimeoutError \<lparr>totalAttempts = Num (real made), totalElapsedMs = elapsed\<rparr> cause)
            else ret ()))"
  proof (rule safe_andThen[where ?R1.0 = "\<lambda>now. \<exists>w. now = fst (Date_now rt w)"])
    show "safe P E (\<lambda>now. \<exists>w. now = fst (Date_now rt w)) (dateNow rt)"
      by (rule safe_dateNow) (use assms(1) in auto)
  next
    fix now assume "\<exists>w. now = fst (Date_now rt w)"
    then obtain w where now: "now = fst (Date_now rt w)" by blast
    show "safe P E (\<lambda>u. True) (let elapsed = elapsedSince s now in
            if js_ge elapsed limit
            then throw (TimeoutError \<lparr>totalAttempts = Num (real made), totalElapsedMs = elapsed\<rparr> cause)
            else ret ())"
      using assms(2)[OF Some, of w] now by (simp add: Let_def safe_ret safe_throw)
  qed
  thus ?thesis using Some by (simp add: checkTimeout_def)
qed

lemma list_all_polled: "(\<And>b. P (Polled b)) \<Longrightarrow> list_all P (polled options w)"
  by (simp add: polled_def split: option.splits)

lemma safe_checkSignal:
  assumes "\<And>b. P (Polled b)"
  shows "safe P E (\<lambda>b. b \<longrightarrow> (\<exists>w. signalAborted options w)) (checkSignal options)"
  using list_all_polled[of P options, OF assms] by (auto simp: safe_def checkSignal_def)

lemma safe_checkAbort:
  assumes "\<And>t. P (Clock t)"
    and "\<And>w t c. signalAborted options w
           \<Longrightarrow> E (AbortError \<lparr>totalAttempts = Num (real made), totalElapsedMs = t\<rparr> c)"
    and "\<And>b. P (Polled b)"
  shows "safe P E (\<lambda>u. True) (checkAbort rt options s made)"
  unfolding checkAbort_def
proof (rule safe_andThen[where ?R1.0 = "\<lambda>b. b \<longrightarrow> (\<exists>w. signalAborted options w)"])
  show "safe P E (\<lambda>b. b \<longrightarrow> (\<exists>w. signalAborted options w)) (checkSignal options)"
    by (rule safe_checkSignal) (rule assms(3))
next
  fix isAborted assume a: "isAborted \<longrightarrow> (\<exists>w. signalAborted options w)"
  show "safe P E (\<lambda>u. True) (if isAborted then
         andThen (dateNow rt) (\<lambda>now.
         andThen (reading (signalReason options)) (\<lambda>cause.
           throw (AbortError \<lparr>totalAttempts = Num (real made),
                              totalElapsedMs = elapsedSince s now\<rparr> cause)))
       else ret ())"
  proof (cases isAborted)
    case False
    thus ?thesis by (simp add: safe_ret)
  next
    case True
    then obtain w where w: "signalAborted options w" using a by blast
    have "safe P E (\<lambda>u. True) (andThen (dateNow rt) (\<lambda>now.
         andThen (reading (signalReason options)) (\<lambda>cause.
           throw (AbortError \<lparr>totalAttempts = Num (real made),
                              totalElapsedMs = elapsedSince s now\<rparr> cause))))"
      apply (rule safe_andThen[where ?R1.0 = "\<lambda>now. True"])
       apply (rule safe_dateNow)
        apply (rule assms(1))
       apply simp
      apply (rule safe_andThen[where ?R1.0 = "\<lambda>c. True"])
       apply (rule safe_reading)
       apply simp
      apply (rule safe_throw)
      apply (rule assms(2)[OF w])
      done
    thus ?thesis using True by simp
  qed
qed

lemma safe_callRetryOn:
  assumes "P (Classify e a)"
    and "\<And>x w w'. the_retryOn options e a w = (Inl x, w') \<Longrightarrow> E (Raw x)"
    and "\<And>b w w'. the_retryOn options e a w = (Inr b, w') \<Longrightarrow> R b"
  shows "safe P E R (callRetryOn options e a)"
  using assms by (auto simp: safe_def callRetryOn_def split: prod.splits sum.splits)

lemma safe_computeDelay:
  assumes "\<And>r. P (Random r)"
  shows "safe P E (\<lambda>d. True) (computeDelay rt options a)"
proof -
  have "safe P E (\<lambda>d. True) (applyJitter rt d)" for d
    unfolding applyJitter_def
    by (rule safe_andThen[where ?R1.0 = "\<lambda>r. True"]) (simp_all add: safe_mathRandom assms safe_ret)
  thus ?thesis by (simp add: computeDelay_def Let_def safe_ret)
qed

lemma safe_clampDelay:
  assumes "\<And>t. P (Clock t)"
    and "\<And>limit w. timeoutMs options = Some limit
           \<Longrightarrow> js_le (js_sub limit (elapsedSince s (fst (Date_now rt w)))) (Num 0)
           \<Longrightarrow> E (TimeoutError \<lparr>totalAttempts = Num (real (a + 1)),
                  totalElapsedMs = elapsedSince s (fst (Date_now rt w))\<rparr> e)"
  shows "safe P E (\<lambda>d. True) (clampDelay rt options s a e d)"
proof (cases "timeoutMs options")
  case None
  thus ?thesis by (simp add: clampDelay_def safe_ret)
next
  case (Some limit)
  have "safe P E (\<lambda>d. True) (andThen (dateNow rt) (\<lambda>now.
            let elapsed = elapsedSince s now;
                remaining = js_sub limit elapsed
            in if js_le remaining (Num 0)
               then throw (TimeoutError \<lparr>totalAttempts = Num (real (a + 1)),
                                         totalElapsedMs = elapsed\<rparr> e)
               else ret (Math_min d remaining)))"
  proof (rule safe_andThen[where ?R1.0 = "\<lambda>now. \<exists>w. now = fst (Date_now rt w)"])
    show "safe P E (\<lambda>now. \<exists>w. now = fst (Date_now rt w)) (dateNow rt)"
      by (rule safe_dateNow) (use assms(1) in auto)
  next
    fix now assume "\<exists>w. now = fst (Date_now rt w)"
    then obtain w where now: "now = fst (Date_now rt w)" by blast
    show "safe P E (\<lambda>d. True) (let elapsed = elapsedSince s now;
                remaining = js_sub limit elapsed
            in if js_le remaining (Num 0)
               then throw (TimeoutError \<lparr>totalAttempts = Num (real (a + 1)),
                                         totalElapsedMs = elapsed\<rparr> e)
               else ret (Math_min d remaining))"
      using assms(2)[OF Some, of w] now by (simp add: Let_def safe_ret safe_throw)
  qed
  thus ?thesis using Some by (simp add: clampDelay_def)
qed

lemma safe_callOnRetry:
  assumes "P (Notify e up d)"
    and "\<And>h x w w'. onRetry options = Some h \<Longrightarrow> h e up d w = (Inl x, w') \<Longrightarrow> E (Raw x)"
  shows "safe P E (\<lambda>u. True) (callOnRetry options e up d)"
  using assms by (auto simp: safe_def callOnRetry_def split: prod.splits sum.splits option.splits)

lemma safe_sleepOrAbort:
  assumes "P (Sleep d)" and "\<And>t. P (Clock t)"
    and "\<And>w x w1 t c. sleep rt d (signal options) w = (Inl x, w1)
           \<Longrightarrow> E (AbortError \<lparr>totalAttempts = Num (real (a + 1)), totalElapsedMs = t\<rparr> c)"
    and "\<And>b. P (Polled b)"
  shows "safe P E (\<lambda>u. True) (sleepOrAbort rt options s a le d)"
  using assms(1-3) list_all_polled[of P options, OF assms(4)]
  by (auto simp: safe_def sleepOrAbort_def split: prod.splits sum.splits)

lemma safe_beforeAttempt:
  assumes "\<And>t. P (Clock t)"
    and "\<And>limit w. timeoutMs options = Some limit
           \<Longrightarrow> js_ge (elapsedSince s (fst (Date_now rt w))) limit
           \<Longrightarrow> E (TimeoutError \<lparr>totalAttempts = Num (real a),
                  totalElapsedMs = elapsedSince s (fst (Date_now rt w))\<rparr> le)"
    and "\<And>w t c. signalAborted options w
           \<Longrightarrow> E (AbortError \<lparr>totalAttempts = Num (real a), totalElapsedMs = t\<rparr> c)"
    and "\<And>b. P (Polled b)"
  shows "safe P E (\<lambda>u. True) (beforeAttempt rt options s a le)"
  unfolding beforeAttempt_def
  by (rule safe_andThen[where ?R1.0 = "\<lambda>u. True"])
     (simp_all add: safe_checkTimeout safe_checkAbort assms)

lemma safe_afterFailure:
  assumes "\<And>t. P (Clock t)" and "P (Classify e a)" and "\<And>r. P (Random r)"
    and "\<And>d. P (Notify e (a + 1) d)" and "\<And>d. P (Sleep d)"
    and "\<And>x w w'. the_retryOn options e a w = (Inl x, w') \<Longrightarrow> E (Raw x)"
    and "\<And>w w'. the_retryOn options e a w = (Inr False, w') \<Longrightarrow> E (Raw e)"
    and "\<And>limit w. timeoutMs options = Some limit
           \<Longrightarrow> js_ge (elapsedSince s (fst (Date_now rt w))) limit
           \<Longrightarrow> E (TimeoutError \<lparr>totalAttempts = Num (real (a + 1)),
                  totalElapsedMs = elapsedSince s (fst (Date_now rt w))\<rparr> e)"
    and "\<And>limit w. timeoutMs options = Some limit
           \<Longrightarrow> js_le (js_sub limit (elapsedSince s (fst (Date_now rt w)))) (Num 0)
           \<Longrightarrow> E (TimeoutError \<lparr>totalAttempts = Num (real (a + 1)),
                  totalElapsedMs = elapsedSince s (fst (Date_now rt w))\<rparr> e)"
    and "\<And>w t c. signalAborted options w
           \<Longrightarrow> E (AbortError \<lparr>totalAttempts = Num (real (a + 1)), totalElapsedMs = t\<rparr> c)"
    and "\<And>h x d w w'. onRetry options = Some h \<Longrightarrow> h e (a + 1) d w = (Inl x, w') \<Longrightarrow> E (Raw x)"
    and "\<And>d w x w1 t c. sleep rt d (signal options) w = (Inl x, w1)
           \<Longrightarrow> E (AbortError \<lparr>totalAttempts = Num (real (a + 1)), totalElapsedMs = t\<rparr> c)"
    and "\<And>b. P (Polled b)"
  shows "safe P E (\<lambda>c. c = (if js_ge (Num (real a)) (the_maxRetries options) then Break else Continue))
           (afterFailure rt options s a e)"
proof (cases "js_ge (Num (real a)) (the_maxRetries options)")
  case True
  thus ?thesis by (simp add: afterFailure_def safe_ret)
next
  case False
  have "safe P E (\<lambda>c. c = Continue)
     (andThen (callRetryOn options e a) (\<lambda>retry.
          if \<not> retry then throw (Raw e)
          else
            andThen (checkTimeout rt options s (a + 1) e) (\<lambda>u.
            andThen (checkAbort rt options s (a + 1)) (\<lambda>u.
            andThen (computeDelay rt options a) (\<lambda>delay.
            andThen (clampDelay rt options s a e delay) (\<lambda>delay.
            andThen (callOnRetry options e (a + 1) delay) (\<lambda>u.
            andThen (sleepOrAbort rt options s a e delay) (\<lambda>u.
              ret Continue))))))))"
  proof (rule safe_andThen[where ?R1.0 = "\<lambda>b. \<not> b \<longrightarrow> E (Raw e)"])
    show "safe P E (\<lambda>b. \<not> b \<longrightarrow> E (Raw e)) (callRetryOn options e a)"
      by (rule safe_callRetryOn) (use assms(2,6,7) in auto)
  next
    fix retry assume r: "\<not> retry \<longrightarrow> E (Raw e)"
    show "safe P E (\<lambda>c. c = Continue) (if \<not> retry then throw (Raw e)
          else
            andThen (checkTimeout rt options s (a + 1) e) (\<lambda>u.
            andThen (checkAbort rt options s (a + 1)) (\<lambda>u.
            andThen (computeDelay rt options a) (\<lambda>delay.
            andThen (clampDelay rt options s a e delay) (\<lambda>delay.
            andThen (callOnRetry options e (a + 1) delay) (\<lambda>u.
            andThen (sleepOrAbort rt options s a e delay) (\<lambda>u.
              ret Continue)))))))"
    proof (cases retry)
      case False
      thus ?thesis using r by (simp add: safe_throw)
    next
      case True
      have "safe P E (\<lambda>c. c = Continue) (
            andThen (checkTimeout rt options s (a + 1) e) (\<lambda>u.
            andThen (checkAbort rt options s (a + 1)) (\<lambda>u.
            andThen (computeDelay rt options a) (\<lambda>delay.
            andThen (clampDelay rt options s a e delay) (\<lambda>delay.
            andThen (callOnRetry options e (a + 1) delay) (\<lambda>u.
            andThen (sleepOrAbort rt options s a e delay) (\<lambda>u.
              ret Continue)))))))"
        apply (rule safe_andThen[where ?R1.0 = "\<lambda>u. True"])
         apply (rule safe_checkTimeout)
          apply (rule assms(1))
         apply (erule (1) assms(8))
        apply (rule safe_andThen[where ?R1.0 = "\<lambda>u. True"])
         apply (rule safe_checkAbort)
           apply (rule assms(1))
          apply (erule assms(10))
         apply (rule assms(13))
        apply (rule safe_andThen[where ?R1.0 = "\<lambda>u. True"])
         apply (rule safe_computeDelay)
         apply (rule assms(3))
        apply (rule safe_andThen[where ?R1.0 = "\<lambda>u. True"])
         apply (rule safe_clampDelay)
          apply (rule assms(1))
         apply (erule (1) assms(9))
        apply (rule safe_andThen[where ?R1.0 = "\<lambda>u. True"])
         apply (rule safe_callOnRetry)
          apply (rule assms(4))
         apply (erule (1) assms(11))
        apply (rule safe_andThen[where ?R1.0 = "\<lambda>u. True"])
         apply (rule safe_sleepOrAbort)
            apply (rule assms(5))
           apply (rule assms(1))
          apply (erule assms(12))
         apply (rule assms(13))
        apply (rule safe_ret)
        apply simp
        done
      thus ?thesis using True by simp
    qed
  qed
  thus ?thesis using False by (simp add: afterFailure_def)
qed

text \<open>The \<^verbatim>\<open>catch\<close> block breaks out of the loop exactly on the final attempt.\<close>

lemma afterFailure_Break:
  assumes "afterFailure rt options s a e w = (Inr Break, w', ev)"
  shows "js_ge (Num (real a)) (the_maxRetries options) \<and> w' = w \<and> ev = []"
proof (cases "js_ge (Num (real a)) (the_maxRetries options)")
  case True
  thus ?thesis using assms by (simp add: afterFailure_def ret_def)
next
  case False
  have "safe (\<lambda>ev. True) (\<lambda>e. True) (\<lambda>c. c = (if js_ge (Num (real a)) (the_maxRetries options) then Break else Continue))
           (afterFailure rt options s a e)"
    by (rule safe_afterFailure) simp_all
  from safeD(3)[OF this assms] False show ?thesis by simp
qed

lemma afterFailure_not_final:
  assumes "afterFailure rt options s a e w = (r, w', ev)" and "r \<noteq> Inr Break"
  shows "\<not> js_ge (Num (real a)) (the_maxRetries options)"
  using assms by (auto simp: afterFailure_def ret_def split: if_splits)

text \<open>Comparisons of numbers.\<close>

lemma le_and_ge: "js_le (Num x) m \<Longrightarrow> js_ge (Num x) m \<Longrightarrow> m = Num x"
  by (cases m) (simp_all add: js_ge_def)

lemma not_ge_lt: "js_le (Num x) m \<Longrightarrow> \<not> js_ge (Num x) m \<Longrightarrow> js_lt (Num x) m"
  by (cases m) (simp_all add: js_ge_def)

lemma lt_not_ge: "js_lt x y \<Longrightarrow> \<not> js_ge x y"
  by (cases x; cases y) (simp_all add: js_ge_def)

lemma lt_remaining: "js_lt (Num x) limit \<Longrightarrow> \<not> js_le (js_sub limit (Num x)) (Num 0)"
  by (cases limit) (simp_all add: js_sub_def)

lemma integer_bound:
  assumes "Number_isInteger m" and "\<not> js_lt m (Num 0)"
    and "a = 0 \<or> js_lt (Num (real (a - 1))) m"
  shows "js_le (Num (real a)) m"
proof (cases m)
  case (Num x)
  with assms(1) obtain z :: int where z: "x = of_int z" by auto
  have z0: "0 \<le> z" using assms(2) Num z by simp
  show ?thesis
  proof (cases "a = 0")
    case True
    thus ?thesis using Num z z0 by simp
  next
    case False
    hence "real (a - 1) < of_int z" using assms(3) Num z by simp
    hence "int (a - 1) < z" by linarith
    hence "int a \<le> z" using False by linarith
    hence "real a \<le> of_int z" by linarith
    thus ?thesis using Num z by simp
  qed
qed (use assms in simp_all)

text \<open>When nothing cancels and no timeout is reached, the checks pass and the retry goes ahead.\<close>

lemma neverCancelled_aborted: "neverCancelled rt options \<Longrightarrow> \<not> signalAborted options w"
  by (auto simp: neverCancelled_def signalAborted_def split: option.splits)

lemma neverCancelled_sleep:
  "neverCancelled rt options \<Longrightarrow> sleep rt d (signal options) w \<noteq> (Inl x, w1)"
  by (auto simp: neverCancelled_def sleep_def split: option.splits prod.splits if_splits)
     (metis fst_conv)

lemma triple: obtains r w' ev where "(m :: ('w, 'x) step) w = (r, w', ev)"
  by (cases "m w") auto

lemma beforeAttempt_passes:
  assumes "\<And>limit w. timeoutMs options = Some limit
              \<Longrightarrow> js_lt (elapsedSince s (fst (Date_now rt w))) limit"
    and "neverCancelled rt options"
  obtains w1 ev1 where "beforeAttempt rt options s a le w = (Inr (), w1, ev1)"
    and "calls ev1 = []"
proof -
  obtain r w1 ev1 where run: "beforeAttempt rt options s a le w = (r, w1, ev1)"
    by (rule triple)
  have "safe (\<lambda>ev. \<forall>a r. ev \<noteq> Invoked a r) (\<lambda>e. False) (\<lambda>u. True) (beforeAttempt rt options s a le)"
    by (rule safe_beforeAttempt)
       (auto simp: neverCancelled_aborted[OF assms(2)] dest: assms(1) lt_not_ge)
  note facts = safeD[OF this run]
  have c: "calls ev1 = []" using facts(1) by (simp add: calls_no_invocation)
  have "r = Inr ()" using facts(2) by (cases r) auto
  thus ?thesis using run that c by simp
qed

lemma afterFailure_proceeds:
  assumes "\<And>limit w. timeoutMs options = Some limit
              \<Longrightarrow> js_lt (elapsedSince s (fst (Date_now rt w))) limit"
    and "neverCancelled rt options" and "hookNeverThrows options"
    and "\<And>w. \<exists>w'. the_retryOn options e a w = (Inr True, w')"
  obtains w3 ev3 where
    "afterFailure rt options s a e w
       = (Inr (if js_ge (Num (real a)) (the_maxRetries options) then Break else Continue), w3, ev3)"
    and "calls ev3 = []"
proof -
  obtain r w3 ev3 where run: "afterFailure rt options s a e w = (r, w3, ev3)"
    by (rule triple)
  have "safe (\<lambda>ev. \<forall>a r. ev \<noteq> Invoked a r) (\<lambda>e. False)
          (\<lambda>c. c = (if js_ge (Num (real a)) (the_maxRetries options) then Break else Continue))
          (afterFailure rt options s a e)"
  proof (rule safe_afterFailure)
    fix x w w' assume "the_retryOn options e a w = (Inl x, w')"
    thus False using assms(4)[of w] by auto
  next
    fix w w' assume "the_retryOn options e a w = (Inr False, w')"
    thus False using assms(4)[of w] by auto
  next
    fix limit w assume "timeoutMs options = Some limit"
      "js_ge (elapsedSince s (fst (Date_now rt w))) limit"
    thus False using assms(1) lt_not_ge by blast
  next
    fix limit w assume "timeoutMs options = Some limit"
      "js_le (js_sub limit (elapsedSince s (fst (Date_now rt w)))) (Num 0)"
    thus False using assms(1)[of limit w] lt_remaining by (simp add: elapsedSince_def)
  next
    fix w t c assume "signalAborted options w"
    thus False by (simp add: neverCancelled_aborted[OF assms(2)])
  next
    fix h x d w w' assume "onRetry options = Some h" "h e (a + 1) d w = (Inl x, w')"
    thus False using assms(3) by (auto simp: hookNeverThrows_def) (metis Inl_Inr_False fst_conv)
  next
    fix d w x w1 t c assume "sleep rt d (signal options) w = (Inl x, w1)"
    thus False by (simp add: neverCancelled_sleep[OF assms(2)])
  qed simp_all
  note facts = safeD[OF this run]
  have c: "calls ev3 = []" using facts(1) by (simp add: calls_no_invocation)
  have "r = Inr (if js_ge (Num (real a)) (the_maxRetries options) then Break else Continue)"
    using facts(2,3) by (cases r) auto
  thus ?thesis using run that c by simp
qed

section \<open>Concrete runs\<close>

lemmas run_defs = smartRetry_def validateOptions_def offending_def nullish_def
  signalAborted_def signalReason_def polled_def checkSignal_def after_def settle_def exhausted_def
  afterFailure_def beforeAttempt_def
  andThen_def ret_def throw_def reading_def dateNow_def mathRandom_def applyJitter_def
  checkTimeout_def checkAbort_def callRetryOn_def computeDelay_def clampDelay_def
  callOnRetry_def sleepOrAbort_def sleep_def elapsedSince_def
  the_maxRetries_def the_baseDelayMs_def the_maxDelayMs_def the_jitter_def the_retryOn_def
  DEFAULTS_maxRetries_def DEFAULTS_baseDelayMs_def DEFAULTS_maxDelayMs_def DEFAULTS_jitter_def
  calculateBackoffDelay_def Math_pow2_def overflow_def Math_min_def js_ge_def js_gt_def js_eq_def js_sub_def
  Let_def virtualClock_def failing_def quietSignal_def

lemmas run_defs2 = run_defs interruptingClock_def laterSignal_def abortedSignal_def

lemma defaultRetryPolicy_e503: "defaultRetryPolicy e503"
  by (simp add: defaultRetryPolicy_def isNetworkError_def extractHttpStatus_foundStatus
        foundStatus_e503 js_eq_def js_ge_def)

lemma run_exhaust:
  "smartRetry 3 virtualClock failing optsExhaust 0 =
     Some (Rejected (RetryExhaustedError \<lparr>totalAttempts = Num 3, totalElapsedMs = Num 900\<rparr> e503), 900,
       [Clock 0, Polled False, Polled False, Invoked 0 (Some e503), Classify e503 0, Polled False,
        Notify e503 1 (Num 100), Sleep (Num 100),
        Polled False, Invoked 1 (Some e503), Classify e503 1, Polled False,
        Notify e503 2 (Num 200), Sleep (Num 200),
        Polled False, Invoked 2 (Some e503), Clock 900])"
  by (simp add: run_defs optsExhaust_def defaultRetryPolicy_e503 numeral_eq_Suc)

lemma run_reject:
  "smartRetry 1 virtualClock failing optsReject 0 =
     Some (Rejected (Raw e503), 200, [Clock 0, Invoked 0 (Some e503), Classify e503 0])"
  by (simp add: run_defs optsReject_def)

lemma run_single:
  "smartRetry 1 virtualClock failing optsSingle 0 =
     Some (Rejected (RetryExhaustedError \<lparr>totalAttempts = Num 1, totalElapsedMs = Num 200\<rparr> e503), 200,
       [Clock 0, Invoked 0 (Some e503), Clock 200])"
  by (simp add: run_defs optsSingle_def)

lemma run_budget:
  "smartRetry 5 virtualClock failing optsBudget 0 =
     Some (Rejected (TimeoutError \<lparr>totalAttempts = Num 1, totalElapsedMs = Num 500\<rparr> e503), 500,
       [Clock 0, Clock 0, Invoked 0 (Some e503), Classify e503 0, Clock 200, Clock 200,
        Sleep (Num 300), Clock 500])"
  by (simp add: run_defs optsBudget_def defaultRetryPolicy_e503 numeral_eq_Suc)

lemma run_cancelled:
  "smartRetry 1 virtualClock failing optsCancelled 0 =
     Some (Rejected (AbortError \<lparr>totalAttempts = Num 0, totalElapsedMs = Num 0\<rparr> (JString ''cancelled'')),
           0, [Clock 0, Polled True])"
  by (simp add: run_defs2 optsCancelled_def)

lemma run_interrupted:
  "smartRetry 2 interruptingClock failing optsInterrupted 0 =
     Some (Rejected (AbortError \<lparr>totalAttempts = Num 1, totalElapsedMs = Num 250\<rparr>
                       (JString ''user cancelled'')),
           250, [Clock 0, Polled False, Polled False, Invoked 0 (Some e503), Classify e503 0,
                 Polled False, Sleep (Num 1000), Polled True, Clock 250])"
  by (simp add: run_defs2 optsInterrupted_def defaultRetryPolicy_e503 rejection_def numeral_eq_Suc)

lemma sleep_interrupted:
  "sleep interruptingClock (Num 1000) (signal optsInterrupted) 200 = (Inl (JString ''user cancelled''), 250)"
  by (simp add: sleep_def optsInterrupted_def interruptingClock_def laterSignal_def rejection_def)



lemma run_half:
  "smartRetry 2 virtualClock failing optsHalf 0 =
     Some (Rejected (RetryExhaustedError \<lparr>totalAttempts = Num (3 / 2), totalElapsedMs = Num 300\<rparr> e503),
           300, [Clock 0, Invoked 0 (Some e503), Classify e503 0, Sleep (Num 100), Clock 300])"
  by (simp add: run_defs2 optsHalf_def defaultRetryPolicy_e503 numeral_eq_Suc)

lemma run_noCount:
  "smartRetry 1 virtualClock failing optsNoCount 0 =
     Some (Rejected (RetryExhaustedError \<lparr>totalAttempts = NaN, totalElapsedMs = Num 0\<rparr> JUndefined),
           0, [Clock 0, Clock 0])"
  by (simp add: run_defs optsNoCount_def)

section \<open>Validation\<close>



lemma validateOptions_third:
  "\<not> maxRetriesViolated options \<Longrightarrow> \<not> baseDelayViolated options \<Longrightarrow> maxDelayMs options = Some m
     \<Longrightarrow> js_lt m (the_baseDelayMs options)
     \<Longrightarrow> validateOptions options = Some (MaxDelayBelowBase m (the_baseDelayMs options))"
  by (auto simp: validateOptions_def offending_def maxRetriesViolated_def baseDelayViolated_def
        the_baseDelayMs_def Let_def split: option.splits)


lemma validateOptions_passes:
  "\<not> maxRetriesViolated options \<Longrightarrow> \<not> baseDelayViolated options
     \<Longrightarrow> (\<And>m. maxDelayMs options = Some m \<Longrightarrow> \<not> js_lt m (the_baseDelayMs options))
     \<Longrightarrow> (\<And>t. timeoutMs options = Some t \<Longrightarrow> \<not> js_le t (Num 0))
     \<Longrightarrow> validateOptions options = None"
  by (auto simp: validateOptions_def offending_def maxRetriesViolated_def baseDelayViolated_def
        the_baseDelayMs_def Let_def split: option.splits)



lemma le_not_lt: "js_le b a \<Longrightarrow> \<not> js_lt a b"
  by (cases a; cases b) simp_all

lemma lt_not_le: "js_lt b a \<Longrightarrow> \<not> js_le a b"
  by (cases a; cases b) simp_all

text \<open>The constraints and the checks of the validation, one by one.\<close>

lemma meetsMaxRetries_check: "meetsMaxRetries options \<Longrightarrow> \<not> maxRetriesViolated options"
  by (auto simp: meetsMaxRetries_def maxRetriesViolated_def the_maxRetries_def nullish_def js_ge_def
        dest: le_not_lt split: option.splits)

lemma meetsBaseDelay_check: "meetsBaseDelay options \<Longrightarrow> \<not> baseDelayViolated options"
  by (auto simp: meetsBaseDelay_def baseDelayViolated_def the_baseDelayMs_def nullish_def js_gt_def
        dest: lt_not_le split: option.splits)

lemma meetsMaxDelay_check:
  "meetsMaxDelay options \<Longrightarrow> maxDelayMs options = Some m \<Longrightarrow> \<not> js_lt m (the_baseDelayMs options)"
  by (auto simp: meetsMaxDelay_def the_maxDelayMs_def nullish_def js_ge_def dest: le_not_lt)

lemma meetsTimeout_check: "meetsTimeout options \<Longrightarrow> timeoutMs options = Some t \<Longrightarrow> \<not> js_le t (Num 0)"
  by (auto simp: meetsTimeout_def js_gt_def dest: lt_not_le)





lemma valid_passes:
  assumes "\<not> invalidOptions options"
  shows "validateOptions options = None"
proof -
  have all: "meetsMaxRetries options" "meetsBaseDelay options" "meetsMaxDelay options"
    "meetsTimeout options"
    using assms by (simp_all add: invalidOptions_def)
  show ?thesis
    by (rule validateOptions_passes[OF meetsMaxRetries_check[OF all(1)]
          meetsBaseDelay_check[OF all(2)] meetsMaxDelay_check[OF all(3)] meetsTimeout_check[OF all(4)]])
qed

lemma rejected_invalid:
  assumes "validateOptions options = Some c"
  shows "invalidOptions options"
  using assms valid_passes by fastforce

lemma validateOptions_maxRetries:
  "validateOptions options = None \<Longrightarrow> \<not> js_lt (the_maxRetries options) (Num 0)"
  by (auto simp: validateOptions_def offending_def the_maxRetries_def nullish_def
        DEFAULTS_maxRetries_def Let_def split: option.splits if_splits)

lemma smartRetry_invalid:
  "validateOptions options = Some c
     \<Longrightarrow> smartRetry fuel rt fn options w = Some (Rejected (ConfigError c), w, [])"
  by (simp add: smartRetry_def)






text \<open>
  Claim C10. When baseDelayMs is omitted, maxDelayMs is checked against the default
  base delay of 300: a provided maxDelayMs below 300 (with maxRetries absent or not
  negative) is rejected with the maxDelayMs-below-baseDelayMs error, before anything
  else happens.
\<close>

theorem maxDelay_checked_against_default:
  assumes "baseDelayMs options = None" and "maxDelayMs options = Some m"
    and "js_lt m (Num 300)" and "\<not> maxRetriesViolated options"
  shows "validateOptions options = Some (MaxDelayBelowBase m (Num 300))
       \<and> smartRetry fuel rt fn options w
           = Some (Rejected (ConfigError (MaxDelayBelowBase m (Num 300))), w, [])"
proof -
  have base: "the_baseDelayMs options = Num 300"
    using assms(1) by (simp add: the_baseDelayMs_def nullish_def DEFAULTS_baseDelayMs_def)
  have nb: "\<not> baseDelayViolated options" using assms(1) by (simp add: baseDelayViolated_def)
  have "validateOptions options = Some (MaxDelayBelowBase m (Num 300))"
    using validateOptions_third[OF assms(4) nb assms(2)] assms(3) base by simp
  thus ?thesis by (simp add: smartRetry_invalid)
qed

theorem maxDelay_checked_against_default_witness:
  "baseDelayMs optsLowCap = None \<and> maxDelayMs optsLowCap = Some (Num 100)
   \<and> js_lt (Num 100) (Num 300) \<and> \<not> maxRetriesViolated optsLowCap
   \<and> validateOptions optsLowCap = Some (MaxDelayBelowBase (Num 100) (Num 300))
   \<and> smartRetry 4 virtualClock failing optsLowCap 0
       = Some (Rejected (ConfigError (MaxDelayBelowBase (Num 100) (Num 300))), 0, [])"
proof -
  have base: "baseDelayMs optsLowCap = None" and cap: "maxDelayMs optsLowCap = Some (Num 100)"
    and low: "js_lt (Num 100) (Num 300)" and count: "\<not> maxRetriesViolated optsLowCap"
    by (simp_all add: optsLowCap_def maxRetriesViolated_def)
  note both = maxDelay_checked_against_default[OF base cap low count,
      where fuel = 4 and rt = virtualClock and fn = failing and w = 0]
  show ?thesis by (intro conjI) (rule base cap low count conjunct1[OF both] conjunct2[OF both])+
qed

section \<open>Exhaustion\<close>





section \<open>Policy rejection\<close>

text \<open>
  Claim C2 as stated fails when maxRetries is 0: the only attempt is the final one, its
  failure leaves the loop before the predicate is consulted, and the error comes back
  wrapped in a RetryExhaustedError although the predicate would have returned false.
\<close>

theorem rejection_counterexample:
  "neverRetries optsSingle \<and> alwaysFails failing \<and> validateOptions optsSingle = None
   \<and> smartRetry 1 virtualClock failing optsSingle 0 =
       Some (Rejected (RetryExhaustedError \<lparr>totalAttempts = Num 1, totalElapsedMs = Num 200\<rparr> e503),
             200, [Clock 0, Invoked 0 (Some e503), Clock 200])
   \<and> map_option fst (smartRetry 1 virtualClock failing optsSingle 0) \<noteq> Some (Rejected (Raw e503))"
  using run_single
  by (simp add: optsSingle_def neverRetries_def alwaysFails_def failing_def validateOptions_def
        offending_def nullish_def)

lemma afterFailure_rejected:
  assumes "neverRetries options" and "\<not> js_ge (Num (real a)) (the_maxRetries options)"
  shows "\<exists>w3. afterFailure rt options s a e w = (Inl (Raw e), w3, [Classify e a])"
proof -
  obtain p where p: "retryOn options = Some p" and no: "\<And>e a w. \<exists>w'. p e a w = (Inr False, w')"
    using assms(1) by (auto simp: neverRetries_def split: option.splits)
  obtain w3 where "p e a w = (Inr False, w3)" using no by blast
  thus ?thesis using assms(2) p
    by (simp add: afterFailure_def andThen_def callRetryOn_def the_retryOn_def nullish_def throw_def)
qed

lemma attempts_rejected:
  assumes "attempts k rt fn options s 0 le w = Some (r, w', evs)"
    and "neverRetries options" and "js_gt (the_maxRetries options) (Num 0)"
    and "Invoked a (Some e) \<in> set evs"
  shows "a = 0 \<and> r = Rejected (Raw e) \<and> calls evs = [(0, Some e)]"
proof (cases k)
  case 0
  thus ?thesis using assms(1) by simp
next
  case (Suc j)
  let ?C = isCheck
  have b: "safe ?C (\<lambda>e. True) (\<lambda>u. True) (beforeAttempt rt options s 0 le)"
    by (rule safe_beforeAttempt) simp_all
  have clocks: "list_all ?C ev \<Longrightarrow> calls ev = [] \<and> (\<forall>a' r'. Invoked a' r' \<notin> set ev)" for ev
    by (simp add: isCheck_calls isCheck_not_invoked)
  have nge: "\<not> js_ge (Num (real 0)) (the_maxRetries options)"
    using assms(3) by (cases "the_maxRetries options") (simp_all add: js_gt_def js_ge_def)
  from assms(1)[unfolded Suc] show ?thesis
  proof (cases rule: attempts_cases)
    case finished
    thus ?thesis using assms(4) by (auto elim: settle_exhausted)
  next
    case (refused err)
    from clocks[OF safeD(1)[OF b refused(2)]] assms(4) show ?thesis by simp
  next
    case (succeeded u w1 ev1 v)
    from clocks[OF safeD(1)[OF b succeeded(2)]] succeeded(5) assms(4) show ?thesis by simp
  next
    case (threw u w1 ev1 e' w2 err ev3)
    from afterFailure_rejected[OF assms(2) nge, of rt s e' w2] threw(4)
    have "err = Raw e'" and "ev3 = [Classify e' 0]" by auto
    with clocks[OF safeD(1)[OF b threw(2)]] threw(5,6) assms(4) show ?thesis
      by (auto simp: calls_append)
  next
    case (broke u w1 ev1 e' w2 w3 ev3 ev4)
    from afterFailure_rejected[OF assms(2) nge, of rt s e' w2] broke(4) show ?thesis by auto
  next
    case (continued u w1 ev1 e' w2 w3 ev3 ev4)
    from afterFailure_rejected[OF assms(2) nge, of rt s e' w2] continued(4) show ?thesis by auto
  qed
qed

text \<open>
  Claim C2, amended. Let the caller's predicate always return false and maxRetries be
  greater than 0. If the configuration is valid, the operation fails whenever invoked,
  and no timeout or cancellation comes before the first attempt, then \<open>smartRetry\<close>
  invokes the operation exactly once and rejects with the very error of that
  invocation, not wrapped and with no metadata. And in every run in which an invocation
  of the operation failed, that invocation was the first and only one and its error is
  what the run rejects with.
\<close>

theorem rejection_propagates:
  assumes "neverRetries options" and "js_gt (the_maxRetries options) (Num 0)"
  shows "(validateOptions options = None \<and> alwaysFails fn \<and> timeoutNeverReached rt options
            \<and> neverCancelled rt options \<and> 0 < fuel
          \<longrightarrow> (\<exists>e w' evs. smartRetry fuel rt fn options w = Some (Rejected (Raw e), w', evs)
                 \<and> calls evs = [(0, Some e)]))
       \<and> (\<forall>r w' evs a e.
             smartRetry fuel rt fn options w = Some (r, w', evs) \<and> Invoked a (Some e) \<in> set evs
             \<longrightarrow> a = 0 \<and> r = Rejected (Raw e) \<and> calls evs = [(0, Some e)])"
proof -
  have total: "\<exists>e w' evs. smartRetry fuel rt fn options w = Some (Rejected (Raw e), w', evs)
                 \<and> calls evs = [(0, Some e)]"
    if valid: "validateOptions options = None" and fails: "alwaysFails fn"
      and time: "timeoutNeverReached rt options" and quiet: "neverCancelled rt options"
      and fuel: "0 < fuel"
  proof -
    obtain k where k: "fuel = Suc k" using fuel by (cases fuel) auto
    obtain s w0 where now: "Date_now rt w = (s, w0)" by (cases "Date_now rt w") auto
    have t: "\<And>limit w1. timeoutMs options = Some limit
                \<Longrightarrow> js_lt (elapsedSince s (fst (Date_now rt w1))) limit"
    proof -
      fix limit w1 assume "timeoutMs options = Some limit"
      hence "js_lt (elapsedSince (fst (Date_now rt w)) (fst (Date_now rt w1))) limit"
        using time by (simp add: timeoutNeverReached_def)
      thus "js_lt (elapsedSince s (fst (Date_now rt w1))) limit" using now by simp
    qed
    obtain w1 ev1 where b: "beforeAttempt rt options s 0 JUndefined w0 = (Inr (), w1, ev1)"
      and ev1: "calls ev1 = []"
      using beforeAttempt_passes[OF t quiet] by blast
    obtain e w2 where f: "fn 0 w1 = (Inl e, w2)"
      using fails unfolding alwaysFails_def by blast
    have le: "js_le (Num (real 0)) (the_maxRetries options)"
      and nge: "\<not> js_ge (Num (real 0)) (the_maxRetries options)"
      using assms(2) by (cases "the_maxRetries options"; simp add: js_gt_def js_ge_def)+
    obtain w3 where af: "afterFailure rt options s 0 e w2 = (Inl (Raw e), w3, [Classify e 0])"
      using afterFailure_rejected[OF assms(1) nge] by blast
    have "attempts (Suc k) rt fn options s 0 JUndefined w0
            = Some (Rejected (Raw e), w3, ev1 @ Invoked 0 (Some e) # [Classify e 0])"
      using le b f af by simp
    hence "smartRetry fuel rt fn options w
            = Some (Rejected (Raw e), w3,
                Clock s # polled options w0 @ ev1 @ Invoked 0 (Some e) # [Classify e 0])"
      using valid now k neverCancelled_aborted[OF quiet]
      by (simp add: smartRetry_def after_def)
    thus ?thesis using ev1 by (simp add: calls_append calls_polled)
  qed
  have partial: "a = 0 \<and> r = Rejected (Raw e) \<and> calls evs = [(0, Some e)]"
    if run: "smartRetry fuel rt fn options w = Some (r, w', evs)"
      and inv: "Invoked a (Some e) \<in> set evs" for r w' evs a e
    using run
  proof (cases rule: smartRetry_cases)
    case (invalid c)
    thus ?thesis using inv by simp
  next
    case (cancelled s)
    thus ?thesis using inv by (simp add: polled_not_invoked)
  next
    case (ran s w0 evs')
    hence "Invoked a (Some e) \<in> set evs'"
      using inv by (simp add: polled_not_invoked)
    from attempts_rejected[OF ran(4) assms this] ran(5) show ?thesis
      by (simp add: calls_append calls_polled)
  qed
  show ?thesis using total partial by blast
qed

lemma reject_setting:
  "neverRetries optsReject" "validateOptions optsReject = None"
  "js_gt (the_maxRetries optsReject) (Num 0)"
  "timeoutNeverReached virtualClock optsReject" "neverCancelled virtualClock optsReject"
  by (simp_all add: optsReject_def neverRetries_def validateOptions_def offending_def nullish_def
        the_maxRetries_def js_gt_def timeoutNeverReached_def neverCancelled_def)

theorem rejection_propagates_witness:
  "neverRetries optsReject \<and> js_gt (the_maxRetries optsReject) (Num 0)
   \<and> validateOptions optsReject = None \<and> alwaysFails failing
   \<and> timeoutNeverReached virtualClock optsReject \<and> neverCancelled virtualClock optsReject
   \<and> (\<exists>e w' evs. smartRetry 1 virtualClock failing optsReject 0 = Some (Rejected (Raw e), w', evs)
           \<and> calls evs = [(0, Some e)])
   \<and> smartRetry 1 virtualClock failing optsReject 0 =
       Some (Rejected (Raw e503), 200, [Clock 0, Invoked 0 (Some e503), Classify e503 0])
   \<and> calls [Clock 0, Invoked 0 (Some e503), Classify e503 0] = [(0, Some e503)]"
proof -
  have fuel: "(0::nat) < 1" by simp
  have fails: "alwaysFails failing" by (simp add: alwaysFails_def failing_def)
  have inv: "Invoked 0 (Some e503) \<in> set [Clock 0, Invoked 0 (Some e503), Classify e503 0]"
    by simp
  note both = rejection_propagates[OF reject_setting(1,3),
      where fn = failing and rt = virtualClock and fuel = 1 and w = 0]
  from both reject_setting fails fuel
  have a: "\<exists>e w' evs. smartRetry 1 virtualClock failing optsReject 0 = Some (Rejected (Raw e), w', evs)
           \<and> calls evs = [(0, Some e)]"
    by blast
  from both run_reject inv
  have b: "calls [Clock 0, Invoked 0 (Some e503), Classify e503 0] = [(0, Some e503)]"
    by blast
  show ?thesis
    by (intro conjI) (rule reject_setting fails a b run_reject)+
qed

section \<open>The timeout budget\<close>

lemma clocks_clamped:
  assumes "list_all isCheck pre" and "anyState options limit s rest"
  shows "sleepsClamped options limit s now a rnd (pre @ rest)"
  using assms by (induction pre arbitrary: now) (auto simp: anyState_def elim: isCheck.elims)

lemma checks_skipped:
  assumes "list_all isCheck pre" and "\<And>n. sleepsClamped options limit s n a rnd rest"
  shows "sleepsClamped options limit s now a rnd (pre @ rest)"
  using assms(1) by (induction pre arbitrary: now) (auto simp: assms(2) elim: isCheck.elims)

lemma polled_clamped:
  "sleepsClamped options limit s now a rnd (polled given w @ rest)
     = sleepsClamped options limit s now a rnd rest"
  by (simp add: polled_def split: option.splits)

lemma sleepOrAbort_clamped:
  assumes "sleepOrAbort rt options s a le d w = (r, w', ev)"
    and "anyState options limit s rest"
    and "\<not> js_le (remainingBudget limit s now) (Num 0)"
    and "d = Math_min (plannedDelay options a rnd) (remainingBudget limit s now)"
  shows "sleepsClamped options limit s now a rnd (ev @ rest)"
  using assms
  by (auto simp: sleepOrAbort_def anyState_def polled_def split: prod.splits sum.splits option.splits)

lemma callOnRetry_events:
  assumes "callOnRetry options e up d w = (r, w', ev)"
  shows "ev = [] \<or> ev = [Notify e up d]"
  using assms by (auto simp: callOnRetry_def split: option.splits prod.splits sum.splits)

lemma tail_notify:
  assumes "andThen (callOnRetry options e (a + 1) d) (\<lambda>u.
            andThen (sleepOrAbort rt options s a e d) (\<lambda>u. ret Continue)) w = (r, w', ev)"
    and "anyState options limit s rest"
    and "\<not> js_le (remainingBudget limit s now) (Num 0)"
    and "d = Math_min (plannedDelay options a rnd) (remainingBudget limit s now)"
  shows "sleepsClamped options limit s now a rnd (ev @ rest)"
  using assms(1)
proof (cases rule: andThenE)
  case (stopped x)
  from callOnRetry_events[OF stopped(1)] assms(2) show ?thesis by (auto simp: anyState_def)
next
  case (went x w1 ev1 ev2)
  from went(2) have "sleepsClamped options limit s now a rnd (ev2 @ rest)"
  proof (cases rule: andThenE)
    case (stopped y)
    from sleepOrAbort_clamped[OF stopped(1) assms(2,3,4)] show ?thesis .
  next
    case (went y w2 ev3 ev4)
    from went(2) have "ev4 = []" by (simp add: ret_def)
    with sleepOrAbort_clamped[OF went(1) assms(2,3,4)] went(3) show ?thesis by simp
  qed
  with callOnRetry_events[OF went(1)] went(3) show ?thesis by auto
qed

lemma tail_clamp:
  assumes "andThen (clampDelay rt options s a e d0) (\<lambda>delay.
            andThen (callOnRetry options e (a + 1) delay) (\<lambda>u.
            andThen (sleepOrAbort rt options s a e delay) (\<lambda>u. ret Continue))) w = (r, w', ev)"
    and "timeoutMs options = Some limit"
    and "anyState options limit s rest"
    and "d0 = plannedDelay options a rnd"
  shows "sleepsClamped options limit s now a rnd (ev @ rest)"
  using assms(1)
proof (cases rule: andThenE)
  case (stopped x)
  hence "\<exists>t. ev = [Clock t]" using assms(2)
    by (auto simp: clampDelay_def andThen_def dateNow_def throw_def ret_def Let_def
          split: prod.splits if_splits)
  thus ?thesis using assms(3) by (auto simp: anyState_def)
next
  case (went d w1 ev1 ev2)
  from went(1) assms(2) obtain t where t: "ev1 = [Clock t]"
    and pos: "\<not> js_le (remainingBudget limit s t) (Num 0)"
    and d: "d = Math_min d0 (remainingBudget limit s t)"
    by (auto simp: clampDelay_def andThen_def dateNow_def throw_def ret_def Let_def
          remainingBudget_def split: prod.splits if_splits)
  from tail_notify[OF went(2) assms(3) pos] d assms(4)
  have "sleepsClamped options limit s t a rnd (ev2 @ rest)" by simp
  thus ?thesis using t went(3) by simp
qed

lemma tail_compute:
  assumes "andThen (computeDelay rt options a) (\<lambda>delay.
            andThen (clampDelay rt options s a e delay) (\<lambda>delay.
            andThen (callOnRetry options e (a + 1) delay) (\<lambda>u.
            andThen (sleepOrAbort rt options s a e delay) (\<lambda>u. ret Continue)))) w = (r, w', ev)"
    and "timeoutMs options = Some limit"
    and "anyState options limit s rest"
  shows "sleepsClamped options limit s now a rnd (ev @ rest)"
  using assms(1)
proof (cases rule: andThenE)
  case (stopped x)
  thus ?thesis
    by (auto simp: computeDelay_def applyJitter_def andThen_def mathRandom_def ret_def Let_def
          split: prod.splits if_splits)
next
  case (went d0 w1 ev1 ev2)
  show ?thesis
  proof (cases "the_jitter options")
    case True
    with went(1) obtain x where x: "ev1 = [Random x]" and d0: "d0 = plannedDelay options a x"
      by (auto simp: computeDelay_def applyJitter_def andThen_def mathRandom_def ret_def Let_def
            plannedDelay_def split: prod.splits)
    from tail_clamp[OF went(2) assms(2,3) d0]
    have "sleepsClamped options limit s now a x (ev2 @ rest)" .
    thus ?thesis using x went(3) by simp
  next
    case False
    with went(1) have x: "ev1 = []" and d0: "d0 = plannedDelay options a rnd"
      by (auto simp: computeDelay_def ret_def Let_def plannedDelay_def)
    from tail_clamp[OF went(2) assms(2,3) d0]
    have "sleepsClamped options limit s now a rnd (ev2 @ rest)" .
    thus ?thesis using x went(3) by simp
  qed
qed

lemma afterFailure_clamped:
  assumes "afterFailure rt options s a e w = (r, w', ev)"
    and "timeoutMs options = Some limit"
    and "anyState options limit s rest"
  shows "sleepsClamped options limit s now a rnd (ev @ rest)"
proof (cases "js_ge (Num (real a)) (the_maxRetries options)")
  case True
  thus ?thesis using assms by (simp add: afterFailure_def ret_def anyState_def)
next
  case False
  let ?C = isCheck
  have ct: "safe ?C (\<lambda>e. True) (\<lambda>u. True) (checkTimeout rt options s (a + 1) e)"
    by (rule safe_checkTimeout) simp_all
  have ca: "safe ?C (\<lambda>e. True) (\<lambda>u. True) (checkAbort rt options s (a + 1))"
    by (rule safe_checkAbort) simp_all
  from assms(1) False
  have "andThen (callRetryOn options e a) (\<lambda>retry.
          if \<not> retry then throw (Raw e)
          else
            andThen (checkTimeout rt options s (a + 1) e) (\<lambda>u.
            andThen (checkAbort rt options s (a + 1)) (\<lambda>u.
            andThen (computeDelay rt options a) (\<lambda>delay.
            andThen (clampDelay rt options s a e delay) (\<lambda>delay.
            andThen (callOnRetry options e (a + 1) delay) (\<lambda>u.
            andThen (sleepOrAbort rt options s a e delay) (\<lambda>u.
              ret Continue))))))) w = (r, w', ev)"
    by (simp add: afterFailure_def)
  thus ?thesis
  proof (cases rule: andThenE)
    case (stopped x)
    hence "ev = [Classify e a]" by (auto simp: callRetryOn_def split: prod.splits sum.splits)
    thus ?thesis using assms(3) by (simp add: anyState_def)
  next
    case (went retry w1 ev1 ev2)
    hence ev1: "ev1 = [Classify e a]" by (auto simp: callRetryOn_def split: prod.splits sum.splits)
    have "sleepsClamped options limit s now a rnd (ev2 @ rest)"
    proof (cases retry)
      case False
      with went(2) have "ev2 = []" by (simp add: throw_def)
      thus ?thesis using assms(3) by (simp add: anyState_def)
    next
      case True
      with went(2) have "andThen (checkTimeout rt options s (a + 1) e) (\<lambda>u.
            andThen (checkAbort rt options s (a + 1)) (\<lambda>u.
            andThen (computeDelay rt options a) (\<lambda>delay.
            andThen (clampDelay rt options s a e delay) (\<lambda>delay.
            andThen (callOnRetry options e (a + 1) delay) (\<lambda>u.
            andThen (sleepOrAbort rt options s a e delay) (\<lambda>u.
              ret Continue)))))) w1 = (r, w', ev2)" by simp
      thus ?thesis
      proof (cases rule: andThenE)
        case (stopped x)
        from clocks_clamped[OF safeD(1)[OF ct stopped(1)] assms(3)] show ?thesis .
      next
        case (went u w2 ev3 ev4)
        note first = this
        have tail: "sleepsClamped options limit s now' a rnd' (ev4 @ rest)" for now' rnd'
          using first(2)
        proof (cases rule: andThenE)
          case (stopped x)
          from clocks_clamped[OF safeD(1)[OF ca stopped(1)] assms(3)] show ?thesis .
        next
          case (went u' w3 ev5 ev6)
          have t6: "sleepsClamped options limit s n a q (ev6 @ rest)" for n q
            by (rule tail_compute[OF went(2) assms(2,3)])
          have "sleepsClamped options limit s n a rnd' (ev5 @ ev6 @ rest)" for n
            by (rule checks_skipped[OF safeD(1)[OF ca went(1)]]) (rule t6)
          thus ?thesis using went(3) by simp
        qed
        have "sleepsClamped options limit s now' a rnd (ev3 @ ev4 @ rest)" for now'
          by (rule checks_skipped[OF safeD(1)[OF ct first(1)]]) (rule tail)
        thus ?thesis using first(3) by simp
      qed
    qed
    thus ?thesis using ev1 went(3) by simp
  qed
qed

lemma attempts_clamped:
  assumes "attempts k rt fn options s a le w = Some (r, w', evs)"
    and "timeoutMs options = Some limit"
  shows "anyState options limit s evs"
  using assms(1)
proof (induction k arbitrary: a le w evs)
  case 0
  thus ?case by simp
next
  case (Suc k)
  let ?C = isCheck
  have b: "safe ?C (\<lambda>e. True) (\<lambda>u. True) (beforeAttempt rt options s a le)"
    by (rule safe_beforeAttempt) simp_all
  have nil: "anyState options limit s []" by (simp add: anyState_def)
  have clock: "anyState options limit s [Clock t]" for t by (simp add: anyState_def)
  from Suc.prems(1) show ?case
  proof (cases rule: attempts_cases)
    case finished
    thus ?thesis using clock by (auto elim: settle_exhausted)
  next
    case (refused e)
    from clocks_clamped[OF safeD(1)[OF b refused(2)] nil] show ?thesis by (simp add: anyState_def)
  next
    case (succeeded u w1 ev1 v)
    have "anyState options limit s [Invoked a None]" by (simp add: anyState_def)
    from clocks_clamped[OF safeD(1)[OF b succeeded(2)] this] succeeded(5) show ?thesis
      by (simp add: anyState_def)
  next
    case (threw u w1 ev1 e w2 e' ev3)
    have "anyState options limit s (Invoked a (Some e) # ev3)"
      using afterFailure_clamped[OF threw(4) assms(2) nil] by (simp add: anyState_def)
    from clocks_clamped[OF safeD(1)[OF b threw(2)] this] threw(6) show ?thesis
      by (simp add: anyState_def)
  next
    case (broke u w1 ev1 e w2 w3 ev3 ev4)
    from broke(5) obtain t where ev4: "ev4 = [Clock t]" by (auto elim: settle_exhausted)
    have "anyState options limit s (Invoked a (Some e) # ev3 @ ev4)"
      using afterFailure_clamped[OF broke(4) assms(2) clock[of t]] ev4 by (simp add: anyState_def)
    from clocks_clamped[OF safeD(1)[OF b broke(2)] this] broke(6) show ?thesis
      by (simp add: anyState_def)
  next
    case (continued u w1 ev1 e w2 w3 ev3 ev4)
    have "anyState options limit s (Invoked a (Some e) # ev3 @ ev4)"
      using afterFailure_clamped[OF continued(4) assms(2) Suc.IH[OF continued(5)]]
      by (simp add: anyState_def)
    from clocks_clamped[OF safeD(1)[OF b continued(2)] this] continued(6) show ?thesis
      by (simp add: anyState_def)
  qed
qed

lemma reported_skipped:
  assumes "list_all notClassify pre"
  shows "timeoutsReported limit s r (pre @ rest) = timeoutsReported limit s r rest"
  using assms
proof (induction pre)
  case Nil
  show ?case by simp
next
  case (Cons x xs)
  thus ?case by (cases x) simp_all
qed

lemma isCheck_notClassify: "list_all isCheck ev \<Longrightarrow> list_all notClassify ev"
  by (induction ev) (auto elim: isCheck.elims)

lemma checkTimeout_shape:
  assumes "checkTimeout rt options s made c w = (r, w', ev)" and "timeoutMs options = Some limit"
  obtains t where "ev = [Clock t]"
  using assms
  by (auto simp: checkTimeout_def andThen_def dateNow_def throw_def ret_def Let_def
        split: prod.splits if_splits)

lemma checkAbort_shape:
  assumes "checkAbort rt options s made w = (r, w', ev)"
  obtains (passed) "r = Inr ()" and "ev = [] \<or> ev = [Polled False]"
        | (aborted) err t where "r = Inl err" and "ev = [Polled True, Clock t]"
  using assms
  by (auto simp: checkAbort_def checkSignal_def polled_def signalAborted_def andThen_def dateNow_def
        reading_def throw_def ret_def split: prod.splits if_splits option.splits)

lemma computeDelay_shape:
  assumes "computeDelay rt options a w = (r, w', ev)"
  obtains d where "r = Inr d" and "ev = [] \<or> (\<exists>x. ev = [Random x])"
  using assms
  by (auto simp: computeDelay_def applyJitter_def andThen_def mathRandom_def ret_def Let_def
        split: prod.splits if_splits)

lemma clampDelay_shape:
  assumes "clampDelay rt options s a e d w = (r, w', ev)" and "timeoutMs options = Some limit"
  obtains t where "ev = [Clock t]"
    and "r = (if js_le (remainingBudget limit s t) (Num 0)
              then Inl (TimeoutError \<lparr>totalAttempts = Num (real (a + 1)),
                                      totalElapsedMs = elapsedSince s t\<rparr> e)
              else Inr (Math_min d (remainingBudget limit s t)))"
  using assms
  by (auto simp: clampDelay_def andThen_def dateNow_def throw_def ret_def Let_def remainingBudget_def
        split: prod.splits if_splits)

lemma tail_notClassify:
  assumes "andThen (callOnRetry options e (a + 1) d) (\<lambda>u.
            andThen (sleepOrAbort rt options s a e d) (\<lambda>u. ret Continue)) w = (r, w', ev)"
  shows "list_all notClassify ev"
proof -
  have "safe notClassify (\<lambda>e. True) (\<lambda>c. True)
          (andThen (callOnRetry options e (a + 1) d) (\<lambda>u.
            andThen (sleepOrAbort rt options s a e d) (\<lambda>u. ret Continue)))"
    apply (rule safe_andThen[where ?R1.0 = "\<lambda>u. True"])
     apply (rule safe_callOnRetry)
      apply simp
     apply simp
    apply (rule safe_andThen[where ?R1.0 = "\<lambda>u. True"])
     apply (rule safe_sleepOrAbort)
        apply simp
       apply simp
      apply simp
     apply simp
    apply (rule safe_ret)
    apply simp
    done
  from safeD(1)[OF this assms] show ?thesis .
qed

lemma afterRetry_shape:
  assumes "andThen (checkTimeout rt options s (a + 1) e) (\<lambda>u.
            andThen (checkAbort rt options s (a + 1)) (\<lambda>u.
            andThen (computeDelay rt options a) (\<lambda>delay.
            andThen (clampDelay rt options s a e delay) (\<lambda>delay.
            andThen (callOnRetry options e (a + 1) delay) (\<lambda>u.
            andThen (sleepOrAbort rt options s a e delay) (\<lambda>u.
              ret Continue)))))) w = (res, w', ev)"
    and "timeoutMs options = Some limit"
  obtains (early) t1 err where "ev = [Clock t1]" and "res = Inl err"
        | (aborted) t1 t2 err where "ev = [Clock t1, Polled True, Clock t2]" and "res = Inl err"
        | (clamped) t1 pl rnd t post where "ev = Clock t1 # pl @ rnd @ Clock t # post"
            and "pl = [] \<or> pl = [Polled False]" and "rnd = [] \<or> (\<exists>x. rnd = [Random x])"
            and "list_all notClassify post"
            and "js_le (remainingBudget limit s t) (Num 0) \<Longrightarrow>
                   post = [] \<and> res = Inl (TimeoutError \<lparr>totalAttempts = Num (real (a + 1)),
                                         totalElapsedMs = elapsedSince s t\<rparr> e)"
  using assms(1)
proof (cases rule: andThenE)
  case (stopped x)
  from checkTimeout_shape[OF stopped(1) assms(2)] obtain t1 where "ev = [Clock t1]" by blast
  thus ?thesis using stopped(2) early by blast
next
  case (went u w1 ev1 ev2)
  from checkTimeout_shape[OF went(1) assms(2)] obtain t1 where ev1: "ev1 = [Clock t1]" by blast
  from went(2) show ?thesis
  proof (cases rule: andThenE)
    case (stopped x)
    from stopped(1) obtain t2 where "ev2 = [Polled True, Clock t2]"
      by (cases rule: checkAbort_shape) auto
    thus ?thesis using stopped(2) ev1 went(3) aborted by simp
  next
    case (went u2 w2 ev3 ev4)
    note abortStep = this
    from abortStep(1) have pl: "ev3 = [] \<or> ev3 = [Polled False]"
      by (cases rule: checkAbort_shape) auto
    from abortStep(2) show ?thesis
    proof (cases rule: andThenE)
      case (stopped x)
      from stopped(1) show ?thesis by (cases rule: computeDelay_shape) simp
    next
      case (went d0 w3 ev5 ev6)
      note computeStep = this
      from computeStep(1) have rnd: "ev5 = [] \<or> (\<exists>x. ev5 = [Random x])"
        by (cases rule: computeDelay_shape) auto
      from computeStep(2) show ?thesis
      proof (cases rule: andThenE)
        case (stopped x)
        from clampDelay_shape[OF stopped(1) assms(2)] obtain t where t: "ev6 = [Clock t]"
          and r: "Inl x = (if js_le (remainingBudget limit s t) (Num 0)
              then Inl (TimeoutError \<lparr>totalAttempts = Num (real (a + 1)),
                                      totalElapsedMs = elapsedSince s t\<rparr> e)
              else Inr (Math_min d0 (remainingBudget limit s t)))"
          by blast
        have x: "x = TimeoutError \<lparr>totalAttempts = Num (real (a + 1)),
                                      totalElapsedMs = elapsedSince s t\<rparr> e"
          using r by (auto split: if_splits)
        have shape: "ev = Clock t1 # ev3 @ ev5 @ Clock t # []"
          using ev1 \<open>ev = ev1 @ ev2\<close> abortStep(3) computeStep(3) t by simp
        show ?thesis
          by (rule clamped[OF shape pl rnd]) (simp_all add: stopped(2) x)
      next
        case (went d w4 ev7 ev8)
        from clampDelay_shape[OF went(1) assms(2)] obtain t where t: "ev7 = [Clock t]"
          and r: "Inr d = (if js_le (remainingBudget limit s t) (Num 0)
              then Inl (TimeoutError \<lparr>totalAttempts = Num (real (a + 1)),
                                      totalElapsedMs = elapsedSince s t\<rparr> e)
              else Inr (Math_min d0 (remainingBudget limit s t)))"
          by blast
        have pos: "\<not> js_le (remainingBudget limit s t) (Num 0)"
          using r by (auto split: if_splits)
        have post: "list_all notClassify ev8" by (rule tail_notClassify[OF went(2)])
        have shape: "ev = Clock t1 # ev3 @ ev5 @ Clock t # ev8"
          using ev1 \<open>ev = ev1 @ ev2\<close> abortStep(3) computeStep(3) went(3) t by simp
        show ?thesis
          by (rule clamped[OF shape pl rnd post]) (simp add: pos)
      qed
    qed
  qed
qed


lemma clampReading_clamped:
  assumes "pl = [] \<or> pl = [Polled False]" and "rnd = [] \<or> (\<exists>x. rnd = [Random x])"
  shows "clampReading (Clock t1 # pl @ rnd @ Clock t # post) = Some (t, post)"
  using assms by (auto simp: clampReading_def)

lemma afterFailure_reported:
  assumes "afterFailure rt options s a e w = (res, w', ev)"
    and "timeoutMs options = Some limit"
    and "timeoutsReported limit s r rest"
    and "\<And>err. res = Inl err \<Longrightarrow> rest = [] \<and> r = Rejected err"
  shows "timeoutsReported limit s r (ev @ rest)"
proof (cases "js_ge (Num (real a)) (the_maxRetries options)")
  case True
  thus ?thesis using assms(1,3) by (simp add: afterFailure_def ret_def)
next
  case False
  from assms(1) False
  have "andThen (callRetryOn options e a) (\<lambda>retry.
          if \<not> retry then throw (Raw e)
          else
            andThen (checkTimeout rt options s (a + 1) e) (\<lambda>u.
            andThen (checkAbort rt options s (a + 1)) (\<lambda>u.
            andThen (computeDelay rt options a) (\<lambda>delay.
            andThen (clampDelay rt options s a e delay) (\<lambda>delay.
            andThen (callOnRetry options e (a + 1) delay) (\<lambda>u.
            andThen (sleepOrAbort rt options s a e delay) (\<lambda>u.
              ret Continue))))))) w = (res, w', ev)"
    by (simp add: afterFailure_def)
  thus ?thesis
  proof (cases rule: andThenE)
    case (stopped x)
    hence "ev = [Classify e a]" by (auto simp: callRetryOn_def split: prod.splits sum.splits)
    thus ?thesis using assms(4)[OF stopped(2)] by (simp add: clampReading_def)
  next
    case (went retry w1 ev1 ev2)
    hence ev1: "ev1 = [Classify e a]" by (auto simp: callRetryOn_def split: prod.splits sum.splits)
    show ?thesis
    proof (cases retry)
      case False
      with went(2) have "ev2 = []" and "res = Inl (Raw e)" by (simp_all add: throw_def)
      thus ?thesis using assms(4) ev1 went(3) by (simp add: clampReading_def)
    next
      case True
      with went(2) have "andThen (checkTimeout rt options s (a + 1) e) (\<lambda>u.
            andThen (checkAbort rt options s (a + 1)) (\<lambda>u.
            andThen (computeDelay rt options a) (\<lambda>delay.
            andThen (clampDelay rt options s a e delay) (\<lambda>delay.
            andThen (callOnRetry options e (a + 1) delay) (\<lambda>u.
            andThen (sleepOrAbort rt options s a e delay) (\<lambda>u.
              ret Continue)))))) w1 = (res, w', ev2)" by simp
      from this assms(2) show ?thesis
      proof (cases rule: afterRetry_shape)
        case (early t1 err)
        thus ?thesis using assms(4) ev1 went(3) by (simp add: clampReading_def)
      next
        case (aborted t1 t2 err)
        thus ?thesis using assms(4) ev1 went(3) by (simp add: clampReading_def)
      next
        case (clamped t1 pl rnd t post)
        have reading: "clampReading (Clock t1 # pl @ rnd @ Clock t # post @ rest) = Some (t, post @ rest)"
          by (rule clampReading_clamped[OF clamped(2,3)])
        have skip: "list_all notClassify (Clock t1 # pl @ rnd @ Clock t # post)"
          using clamped(2,3,4) by auto
        have tail: "timeoutsReported limit s r ((Clock t1 # pl @ rnd @ Clock t # post) @ rest)"
          using assms(3) by (simp only: reported_skipped[OF skip])
        have now: "js_le (remainingBudget limit s t) (Num 0) \<longrightarrow>
             post @ rest = []
           \<and> r = Rejected (TimeoutError \<lparr>totalAttempts = Num (real (a + 1)),
                                         totalElapsedMs = elapsedSince s t\<rparr> e)"
          using clamped(5) assms(4) by auto
        show ?thesis using ev1 went(3) clamped(1) reading tail now by simp
      qed
    qed
  qed
qed

lemma attempts_reported:
  assumes "attempts k rt fn options s a le w = Some (r, w', evs)"
    and "timeoutMs options = Some limit"
  shows "timeoutsReported limit s r evs"
  using assms(1)
proof (induction k arbitrary: a le w evs)
  case 0
  thus ?case by simp
next
  case (Suc k)
  have b: "safe isCheck (\<lambda>e. True) (\<lambda>u. True) (beforeAttempt rt options s a le)"
    by (rule safe_beforeAttempt) simp_all
  have before: "timeoutsReported limit s r (ev1 @ rest) = timeoutsReported limit s r rest"
    if "beforeAttempt rt options s a le w = (x, w1, ev1)" for x w1 ev1 rest
    by (rule reported_skipped[OF isCheck_notClassify[OF safeD(1)[OF b that]]])
  from Suc.prems(1) show ?case
  proof (cases rule: attempts_cases)
    case finished
    thus ?thesis by (auto elim: settle_exhausted)
  next
    case (refused e)
    from before[OF refused(2), of "[]"] show ?thesis by simp
  next
    case (succeeded u w1 ev1 v)
    from before[OF succeeded(2)] succeeded(5) show ?thesis by simp
  next
    case (threw u w1 ev1 e w2 e' ev3)
    have "timeoutsReported limit s r (ev3 @ [])"
      by (rule afterFailure_reported[OF threw(4) assms(2)]) (simp_all add: threw(5))
    thus ?thesis using before[OF threw(2)] threw(6) by simp
  next
    case (broke u w1 ev1 e w2 w3 ev3 ev4)
    from afterFailure_Break[OF broke(4)] have ev3: "ev3 = []" by simp
    from broke(5) obtain t where "ev4 = [Clock t]" by (auto elim: settle_exhausted)
    thus ?thesis using before[OF broke(2)] ev3 broke(6) by simp
  next
    case (continued u w1 ev1 e w2 w3 ev3 ev4)
    have "timeoutsReported limit s r (ev3 @ ev4)"
      by (rule afterFailure_reported[OF continued(4) assms(2) Suc.IH[OF continued(5)]]) simp
    thus ?thesis using before[OF continued(2)] continued(6) by simp
  qed
qed

lemma polled_notClassify: "list_all notClassify (polled options w)"
  by (simp add: polled_def split: option.splits)

lemma smartRetry_reported:
  assumes "timeoutMs options = Some limit"
    and "smartRetry fuel rt fn options w = Some (r, w', evs)"
  shows "timeoutReported limit r evs"
  using assms(2)
proof (cases rule: smartRetry_cases)
  case (invalid c)
  thus ?thesis by (simp add: timeoutReported_def)
next
  case (cancelled s)
  have "timeoutsReported limit s r (polled options w' @ [])"
    by (simp only: reported_skipped[OF polled_notClassify]) simp
  thus ?thesis using cancelled by (simp add: timeoutReported_def)
next
  case (ran s w0 evs')
  from attempts_reported[OF ran(4) assms(1)] ran(5) show ?thesis
    by (simp add: timeoutReported_def reported_skipped[OF polled_notClassify])
qed

lemma Math_min_within: "Math_min d remaining \<noteq> NaN \<Longrightarrow> js_le (Math_min d remaining) remaining"
  by (cases d; cases remaining) (simp_all add: Math_min_def)

text \<open>
  Claim C3 as stated fails when the hook takes time: the delay is clamped at a clock
  reading taken before the hook is called, and the sleep starts after the hook has
  returned. With a budget of 500 ms and a hook that takes one second, the sleep of
  300 ms is clamped at the reading of 200 ms, starts at 1200 ms, when the deadline has
  passed, and ends at 1500 ms.
\<close>

theorem deadline_counterexample:
  "timeoutMs optsSlowHook = Some (Num 500)
   \<and> smartRetry 5 virtualClock failing optsSlowHook 0 =
       Some (Rejected (TimeoutError \<lparr>totalAttempts = Num 1, totalElapsedMs = Num 1500\<rparr> e503), 1500,
         [Clock 0, Clock 0, Invoked 0 (Some e503), Classify e503 0, Clock 200, Clock 200,
          Notify e503 1 (Num 300), Sleep (Num 300), Clock 1500])
   \<and> callOnRetry optsSlowHook e503 1 (Num 300) 200 = (Inr (), 1200, [Notify e503 1 (Num 300)])
   \<and> sleepOrAbort virtualClock optsSlowHook 0 0 e503 (Num 300) 1200 = (Inr (), 1500, [Sleep (Num 300)])
   \<and> pastDeadline (Num 500) 0 (fst (Date_now virtualClock 1200))
   \<and> pastDeadline (Num 500) 0 (fst (Date_now virtualClock 1500))"
proof -
  have limit: "timeoutMs optsSlowHook = Some (Num 500)" by (simp add: optsSlowHook_def)
  have run: "smartRetry 5 virtualClock failing optsSlowHook 0 =
       Some (Rejected (TimeoutError \<lparr>totalAttempts = Num 1, totalElapsedMs = Num 1500\<rparr> e503), 1500,
         [Clock 0, Clock 0, Invoked 0 (Some e503), Classify e503 0, Clock 200, Clock 200,
          Notify e503 1 (Num 300), Sleep (Num 300), Clock 1500])"
    by (simp add: run_defs optsSlowHook_def defaultRetryPolicy_e503 numeral_eq_Suc)
  have hook: "callOnRetry optsSlowHook e503 1 (Num 300) 200 = (Inr (), 1200, [Notify e503 1 (Num 300)])"
    by (simp add: callOnRetry_def optsSlowHook_def)
  have slept: "sleepOrAbort virtualClock optsSlowHook 0 0 e503 (Num 300) 1200
                 = (Inr (), 1500, [Sleep (Num 300)])"
    by (simp add: sleepOrAbort_def sleep_def optsSlowHook_def virtualClock_def)
  have late: "pastDeadline (Num 500) 0 (fst (Date_now virtualClock 1200))"
    "pastDeadline (Num 500) 0 (fst (Date_now virtualClock 1500))"
    by (simp_all add: pastDeadline_def js_gt_def elapsedSince_def virtualClock_def)
  show ?thesis by (intro conjI) (rule limit run hook slept late)+
qed

text \<open>
  Claim C3, amended. When timeoutMs is set, in every run each sleep is asked for
  the minimum of the planned delay and the budget remaining at the clock reading of
  the clamp, and that remaining budget is not \<^verbatim>\<open><= 0\<close>; and whenever the clamp finds
  the remaining budget \<^verbatim>\<open><= 0\<close>, the run ends there without sleeping and rejects with
  a TimeoutError of \<open>attempt + 1\<close> attempts, the elapsed time of that reading and the
  error of the attempt as cause. So no sleep is asked to last beyond the deadline as
  counted from the reading of the clamp. The hook is called after that reading and
  before the sleep, and the time it takes is not deducted.
\<close>

theorem sleeps_within_budget:
  assumes "timeoutMs options = Some limit"
    and "smartRetry fuel rt fn options w = Some (r, w', evs)"
  shows "budgetRespected options limit evs \<and> timeoutReported limit r evs"
proof -
  have trace: "budgetRespected options limit evs"
    using assms(2)
  proof (cases rule: smartRetry_cases)
    case (invalid c)
    thus ?thesis by (simp add: budgetRespected_def)
  next
    case (cancelled s)
    thus ?thesis using polled_clamped[where rest = "[]"] by (simp add: budgetRespected_def)
  next
    case (ran s w0 evs')
    from attempts_clamped[OF ran(4) assms(1)] ran(5) show ?thesis
      by (simp add: budgetRespected_def anyState_def polled_clamped)
  qed
  show ?thesis using trace smartRetry_reported[OF assms] by simp
qed

lemma run_ticking:
  "smartRetry 5 tickingClock failing optsBudget 0 =
     Some (Rejected (TimeoutError \<lparr>totalAttempts = Num 1, totalElapsedMs = Num 500\<rparr> e503), 600,
       [Clock 0, Clock 100, Invoked 0 (Some e503), Classify e503 0, Clock 400, Clock 500])"
  by (simp add: run_defs tickingClock_def optsBudget_def defaultRetryPolicy_e503 numeral_eq_Suc)

theorem sleeps_within_budget_witness:
  "timeoutMs optsBudget = Some (Num 500)
   \<and> smartRetry 5 virtualClock failing optsBudget 0 =
       Some (Rejected (TimeoutError \<lparr>totalAttempts = Num 1, totalElapsedMs = Num 500\<rparr> e503), 500,
         [Clock 0, Clock 0, Invoked 0 (Some e503), Classify e503 0, Clock 200, Clock 200,
          Sleep (Num 300), Clock 500])
   \<and> budgetRespected optsBudget (Num 500)
         [Clock 0, Clock 0, Invoked 0 (Some e503), Classify e503 0, Clock 200, Clock 200,
          Sleep (Num 300), Clock 500]
   \<and> plannedDelay optsBudget 0 0 = Num 400 \<and> remainingBudget (Num 500) 0 200 = Num 300
   \<and> smartRetry 5 tickingClock failing optsBudget 0 =
       Some (Rejected (TimeoutError \<lparr>totalAttempts = Num 1, totalElapsedMs = Num 500\<rparr> e503), 600,
         [Clock 0, Clock 100, Invoked 0 (Some e503), Classify e503 0, Clock 400, Clock 500])
   \<and> timeoutReported (Num 500)
         (Rejected (TimeoutError \<lparr>totalAttempts = Num 1, totalElapsedMs = Num 500\<rparr> e503)
            :: jsval settled)
         [Clock 0, Clock 100, Invoked 0 (Some e503), Classify e503 0, Clock 400, Clock 500]
   \<and> clampReading [Clock 400, Clock 500] = Some (500, [])
   \<and> remainingBudget (Num 500) 0 500 = Num 0"
proof -
  have limit: "timeoutMs optsBudget = Some (Num 500)" by (simp add: optsBudget_def)
  have planned: "plannedDelay optsBudget 0 0 = Num 400"
    by (simp add: plannedDelay_def optsBudget_def the_baseDelayMs_def the_maxDelayMs_def
          the_jitter_def nullish_def DEFAULTS_maxDelayMs_def calculateBackoffDelay_def
          Math_pow2_def overflow_def Math_min_def Let_def)
  have remaining: "remainingBudget (Num 500) 0 200 = Num 300"
    by (simp add: remainingBudget_def elapsedSince_def js_sub_def)
  have reading: "clampReading [Clock 400, Clock 500] = Some (500, [])"
    by (simp add: clampReading_def)
  have none: "remainingBudget (Num 500) 0 500 = Num 0"
    by (simp add: remainingBudget_def elapsedSince_def js_sub_def)
  note slept = sleeps_within_budget[OF limit run_budget]
  note timed = sleeps_within_budget[OF limit run_ticking]
  show ?thesis
    by (intro conjI)
       (rule limit run_budget conjunct1[OF slept] planned remaining run_ticking conjunct2[OF timed]
          reading none)+
qed

section \<open>The final attempt\<close>

lemma attempts_classify:
  assumes "attempts k rt fn options s a le w = Some (r, w', evs)"
  shows "(\<forall>e' a'. Classify e' a' \<in> set evs \<longrightarrow>
            \<not> js_ge (Num (real a')) (the_maxRetries options) \<and> Invoked a' (Some e') \<in> set evs)
       \<and> (\<forall>e' a'. Invoked a' (Some e') \<in> set evs \<and> js_ge (Num (real a')) (the_maxRetries options)
            \<longrightarrow> (\<exists>md. r = Rejected (RetryExhaustedError md e')))"
  using assms
proof (induction k arbitrary: a le w evs)
  case 0
  thus ?case by simp
next
  case (Suc k)
  let ?C = isCheck
  have b: "safe ?C (\<lambda>e. True) (\<lambda>u. True) (beforeAttempt rt options s a le)"
    by (rule safe_beforeAttempt) simp_all
  have af: "safe (\<lambda>ev. (\<forall>e' a'. ev = Classify e' a' \<longrightarrow> e' = e \<and> a' = a) \<and> (\<forall>a' r'. ev \<noteq> Invoked a' r'))
            (\<lambda>e. True)
            (\<lambda>c. c = (if js_ge (Num (real a)) (the_maxRetries options) then Break else Continue))
            (afterFailure rt options s a e)" for e
    by (rule safe_afterFailure) simp_all
  from Suc.prems(1) show ?case
  proof (cases rule: attempts_cases)
    case finished
    thus ?thesis by (auto elim: settle_exhausted)
  next
    case (refused e)
    from safeD(1)[OF b refused(2)] show ?thesis by (auto simp: list_all_iff)
  next
    case (succeeded u w1 ev1 v)
    from safeD(1)[OF b succeeded(2)] succeeded(5) show ?thesis by (auto simp: list_all_iff)
  next
    case (threw u w1 ev1 e w2 e' ev3)
    have nf: "\<not> js_ge (Num (real a)) (the_maxRetries options)"
      using afterFailure_not_final[OF threw(4)] by simp
    from safeD(1)[OF b threw(2)] safeD(1)[OF af threw(4)] nf threw(6) show ?thesis
      by (auto simp: list_all_iff)
  next
    case (broke u w1 ev1 e w2 w3 ev3 ev4)
    from afterFailure_Break[OF broke(4)] have ev3: "ev3 = []" by simp
    from broke(5) obtain md t where "r = Rejected (RetryExhaustedError md e)" "ev4 = [Clock t]"
      by (auto elim: settle_exhausted)
    with safeD(1)[OF b broke(2)] ev3 broke(6) show ?thesis by (auto simp: list_all_iff)
  next
    case (continued u w1 ev1 e w2 w3 ev3 ev4)
    have nf: "\<not> js_ge (Num (real a)) (the_maxRetries options)"
      using afterFailure_not_final[OF continued(4)] by simp
    note ih = Suc.IH[OF continued(5)]
    from safeD(1)[OF b continued(2)] safeD(1)[OF af continued(4)] nf continued(6) ih show ?thesis
      by (auto simp: list_all_iff)
  qed
qed

lemma attempts_single:
  assumes "attempts k rt fn options s a le w = Some (r, w', evs)"
    and "the_maxRetries options = Num 0"
  shows "filter isRetryEvent evs = []
       \<and> (\<forall>e' a'. Invoked a' (Some e') \<in> set evs \<longrightarrow>
            a' = a \<and> calls evs = [(a, Some e')]
          \<and> (\<exists>t. r = Rejected (RetryExhaustedError \<lparr>totalAttempts = Num 1, totalElapsedMs = t\<rparr> e')))"
proof (cases k)
  case 0
  thus ?thesis using assms by simp
next
  case (Suc j)
  let ?C = isCheck
  have b: "safe ?C (\<lambda>e. True) (\<lambda>u. True) (beforeAttempt rt options s a le)"
    by (rule safe_beforeAttempt) simp_all
  have clocks: "list_all ?C ev \<Longrightarrow> filter isRetryEvent ev = [] \<and> calls ev = []
       \<and> (\<forall>a' r'. Invoked a' r' \<notin> set ev)" for ev
    by (simp add: isCheck_calls isCheck_not_invoked isCheck_not_retry)
  have ge: "js_ge (Num (real a)) (the_maxRetries options)"
    using assms(2) by (simp add: js_ge_def)
  from assms(1)[unfolded Suc] show ?thesis
  proof (cases rule: attempts_cases)
    case finished
    thus ?thesis by (auto elim: settle_exhausted)
  next
    case (refused e)
    from clocks[OF safeD(1)[OF b refused(2)]] show ?thesis by simp
  next
    case (succeeded u w1 ev1 v)
    from clocks[OF safeD(1)[OF b succeeded(2)]] succeeded(5) show ?thesis by simp
  next
    case (threw u w1 ev1 e w2 e' ev3)
    from afterFailure_not_final[OF threw(4)] ge show ?thesis by simp
  next
    case (broke u w1 ev1 e w2 w3 ev3 ev4)
    from afterFailure_Break[OF broke(4)] have ev3: "ev3 = []" by simp
    from broke(5) obtain t where "r = Rejected (RetryExhaustedError
        \<lparr>totalAttempts = js_add (the_maxRetries options) (Num 1), totalElapsedMs = elapsedSince s t\<rparr> e)"
      "ev4 = [Clock t]"
      by (auto elim: settle_exhausted)
    with clocks[OF safeD(1)[OF b broke(2)]] ev3 broke(6) assms(2) show ?thesis
      by (auto simp: calls_append)
  next
    case (continued u w1 ev1 e w2 w3 ev3 ev4)
    from afterFailure_not_final[OF continued(4)] ge show ?thesis by simp
  qed
qed

text \<open>
  Claim C4. In every run, the classifier is consulted only for an attempt that failed
  and was not the final one (its index is not \<^verbatim>\<open>>= maxRetries\<close>); and when the final
  attempt fails, the run ends with a RetryExhaustedError whose cause is that failure.
  So with maxRetries 0, if the operation is invoked and fails, it was invoked exactly
  once, the run ends with a RetryExhaustedError of totalAttempts 1, and the run holds no
  call of the predicate, the jitter, the hook or the sleep.
\<close>

theorem classifier_not_consulted_on_final_attempt:
  assumes "smartRetry fuel rt fn options w = Some (r, w', evs)"
  shows "(\<forall>e a. Classify e a \<in> set evs \<longrightarrow>
            \<not> js_ge (Num (real a)) (the_maxRetries options) \<and> Invoked a (Some e) \<in> set evs)
       \<and> (\<forall>e a. Invoked a (Some e) \<in> set evs \<and> js_ge (Num (real a)) (the_maxRetries options)
            \<longrightarrow> (\<exists>md. r = Rejected (RetryExhaustedError md e)))
       \<and> (the_maxRetries options = Num 0 \<longrightarrow>
            filter isRetryEvent evs = []
          \<and> (\<forall>e a. Invoked a (Some e) \<in> set evs \<longrightarrow>
                calls evs = [(0, Some e)]
              \<and> (\<exists>t. r = Rejected (RetryExhaustedError
                                     \<lparr>totalAttempts = Num 1, totalElapsedMs = t\<rparr> e))))"
  using assms
proof (cases rule: smartRetry_cases)
  case (invalid c)
  thus ?thesis by simp
next
  case (cancelled s)
  thus ?thesis by (simp add: polled_not_invoked polled_not_classify polled_not_retry)
next
  case (ran s w0 evs')
  note general = attempts_classify[OF ran(4)]
  have single: "filter isRetryEvent evs' = []
       \<and> (\<forall>e' a'. Invoked a' (Some e') \<in> set evs' \<longrightarrow>
            calls evs' = [(0, Some e')]
          \<and> (\<exists>t. r = Rejected (RetryExhaustedError \<lparr>totalAttempts = Num 1, totalElapsedMs = t\<rparr> e')))"
    if "the_maxRetries options = Num 0"
    using attempts_single[OF ran(4) that] by simp
  show ?thesis using general single ran(5)
    by (auto simp: polled_not_invoked polled_not_classify polled_not_retry calls_append calls_polled)
qed

theorem classifier_not_consulted_on_final_attempt_witness:
  "smartRetry 1 virtualClock failing optsSingle 0 =
     Some (Rejected (RetryExhaustedError \<lparr>totalAttempts = Num 1, totalElapsedMs = Num 200\<rparr> e503), 200,
       [Clock 0, Invoked 0 (Some e503), Clock 200])
   \<and> the_maxRetries optsSingle = Num 0
   \<and> Invoked 0 (Some e503) \<in> set [Clock 0, Invoked 0 (Some e503), Clock 200]
   \<and> filter isRetryEvent [Clock 0, Invoked 0 (Some e503), Clock 200] = []
   \<and> calls [Clock 0, Invoked 0 (Some e503), Clock 200] = [(0, Some e503)]"
proof -
  have m: "the_maxRetries optsSingle = Num 0"
    by (simp add: the_maxRetries_def optsSingle_def nullish_def)
  have i: "Invoked 0 (Some e503) \<in> set [Clock 0, Invoked 0 (Some e503), Clock 200]" by simp
  from classifier_not_consulted_on_final_attempt[OF run_single] m i
  have "filter isRetryEvent [Clock 0, Invoked 0 (Some e503), Clock 200] = []
      \<and> calls [Clock 0, Invoked 0 (Some e503), Clock 200] = [(0, Some e503)]"
    by blast
  thus ?thesis using run_single m i by blast
qed

section \<open>Attempt counts\<close>

lemma attempts_count:
  assumes "attempts k rt fn options s a le w = Some (Rejected err, w', evs)"
    and "\<not> js_lt (the_maxRetries options) (Num 0)"
    and "a = 0 \<or> js_lt (Num (real (a - 1))) (the_maxRetries options)"
  shows "countsAttempts options (a + length (calls evs)) err"
  using assms
proof (induction k arbitrary: a le w evs)
  case 0
  thus ?case by simp
next
  case (Suc k)
  let ?P = "\<lambda>ev. \<forall>a r. ev \<noteq> Invoked a r"
  from Suc.prems(1) show ?case
  proof (cases rule: attempts_cases)
    case finished
    from finished(2) obtain t where err: "err = RetryExhaustedError
                       \<lparr>totalAttempts = js_add (the_maxRetries options) (Num 1),
                        totalElapsedMs = elapsedSince s t\<rparr> le" and ev: "evs = [Clock t]"
      by (auto elim: settle_exhausted)
    have "\<not> Number_isInteger (the_maxRetries options)"
      using integer_bound[OF _ Suc.prems(2,3)] finished(1) by blast
    thus ?thesis using err by (simp add: countsAttempts_def)
  next
    case (refused e)
    have "safe ?P (countsAttempts options a) (\<lambda>u. True) (beforeAttempt rt options s a le)"
      by (rule safe_beforeAttempt) (simp_all add: countsAttempts_def)
    from safeD(1,2)[OF this refused(2)] refused(3) show ?thesis
      by (simp add: calls_no_invocation)
  next
    case (succeeded u w1 ev1 v)
    thus ?thesis by simp
  next
    case (threw u w1 ev1 e w2 e' ev3)
    have b: "safe ?P (\<lambda>e. True) (\<lambda>u. True) (beforeAttempt rt options s a le)"
      by (rule safe_beforeAttempt) simp_all
    have "safe ?P (countsAttempts options (a + 1))
            (\<lambda>c. c = (if js_ge (Num (real a)) (the_maxRetries options) then Break else Continue))
            (afterFailure rt options s a e)"
      by (rule safe_afterFailure) (simp_all add: countsAttempts_def)
    from safeD(1,2)[OF this threw(4)] safeD(1)[OF b threw(2)] threw(5,6) show ?thesis
      by (simp add: calls_no_invocation calls_append)
  next
    case (broke u w1 ev1 e w2 w3 ev3 ev4)
    have b: "safe ?P (\<lambda>e. True) (\<lambda>u. True) (beforeAttempt rt options s a le)"
      by (rule safe_beforeAttempt) simp_all
    from afterFailure_Break[OF broke(4)] have ge: "js_ge (Num (real a)) (the_maxRetries options)"
      and ev3: "ev3 = []" by simp_all
    have m: "the_maxRetries options = Num (real a)" using le_and_ge[OF broke(1) ge] .
    from broke(5) obtain t where err: "err = RetryExhaustedError
                       \<lparr>totalAttempts = js_add (the_maxRetries options) (Num 1),
                        totalElapsedMs = elapsedSince s t\<rparr> e" and ev4: "ev4 = [Clock t]"
      by (auto elim: settle_exhausted)
    show ?thesis using err ev3 ev4 m safeD(1)[OF b broke(2)] broke(6)
      by (simp add: countsAttempts_def calls_no_invocation calls_append)
  next
    case (continued u w1 ev1 e w2 w3 ev3 ev4)
    have b: "safe ?P (\<lambda>e. True) (\<lambda>u. True) (beforeAttempt rt options s a le)"
      by (rule safe_beforeAttempt) simp_all
    have af: "safe ?P (\<lambda>e. True)
            (\<lambda>c. c = (if js_ge (Num (real a)) (the_maxRetries options) then Break else Continue))
            (afterFailure rt options s a e)"
      by (rule safe_afterFailure) simp_all
    have "\<not> js_ge (Num (real a)) (the_maxRetries options)"
      using afterFailure_not_final[OF continued(4)] by simp
    hence lt: "js_lt (Num (real a)) (the_maxRetries options)"
      using not_ge_lt[OF continued(1)] by simp
    have "countsAttempts options (Suc a + length (calls ev4)) err"
      by (rule Suc.IH[OF continued(5) Suc.prems(2)]) (simp add: lt)
    thus ?thesis using safeD(1)[OF b continued(2)] safeD(1)[OF af continued(4)] continued(6)
      by (simp add: calls_no_invocation calls_append)
  qed
qed

lemma sleepOrAbort_interrupted:
  assumes "sleep rt d (signal options) w0 = (Inl x, w1)"
  shows "\<exists>md c w2 ev. sleepOrAbort rt options s a le d w0 = (Inl (AbortError md c), w2, ev)
           \<and> totalAttempts md = Num (real (a + 1))"
  using assms by (auto simp: sleepOrAbort_def split: prod.splits)

text \<open>
  Claim C5 as stated fails for the exhaustion error when maxRetries is not an integer,
  which the validation accepts: the error reports \<^verbatim>\<open>maxRetries + 1\<close>. With
  \<^verbatim>\<open>maxRetries: 0.5\<close> the operation is invoked once and 1.5 attempts are reported; with
  \<^verbatim>\<open>maxRetries: NaN\<close> it is not invoked at all and \<^verbatim>\<open>NaN\<close> attempts are reported.
\<close>

theorem totalAttempts_counterexample:
  "validateOptions optsHalf = None
   \<and> smartRetry 2 virtualClock failing optsHalf 0 =
       Some (Rejected (RetryExhaustedError
               \<lparr>totalAttempts = Num (3 / 2), totalElapsedMs = Num 300\<rparr> e503),
             300, [Clock 0, Invoked 0 (Some e503), Classify e503 0, Sleep (Num 100), Clock 300])
   \<and> calls [Clock 0, Invoked 0 (Some e503), Classify e503 0, Sleep (Num 100), Clock 300]
       = [(0, Some e503)]
   \<and> Num (3 / 2) \<noteq> Num (real (length [(0 :: nat, Some e503)]))
   \<and> validateOptions optsNoCount = None
   \<and> smartRetry 1 virtualClock failing optsNoCount 0 =
       Some (Rejected (RetryExhaustedError \<lparr>totalAttempts = NaN, totalElapsedMs = Num 0\<rparr> JUndefined),
             0, [Clock 0, Clock 0])
   \<and> calls [Clock 0, Clock 0] = []
   \<and> NaN \<noteq> Num (real (length ([] :: (nat \<times> jsval option) list)))"
proof -
  have half: "validateOptions optsHalf = None"
    by (simp add: validateOptions_def offending_def nullish_def optsHalf_def)
  have none: "validateOptions optsNoCount = None"
    by (simp add: validateOptions_def offending_def nullish_def optsNoCount_def)
  have once: "calls [Clock 0, Invoked 0 (Some e503), Classify e503 0, Sleep (Num 100), Clock 300]
       = [(0, Some e503)]"
    by simp
  have never: "calls [Clock 0, Clock 0] = []" by simp
  have differs: "Num (3 / 2) \<noteq> Num (real (length [(0 :: nat, Some e503)]))"
    "NaN \<noteq> Num (real (length ([] :: (nat \<times> jsval option) list)))"
    by simp_all
  show ?thesis
    by (intro conjI) (rule half run_half once differs none run_noCount never)+
qed

text \<open>
  Claim C5, amended. Whenever \<open>smartRetry\<close> rejects with a TimeoutError or an
  AbortError, on whatever path, its totalAttempts is the number of invocations of the
  operation in that run. A RetryExhaustedError reports \<^verbatim>\<open>maxRetries + 1\<close>, which is
  the number of invocations of the run whenever maxRetries is an integer. In particular
  a signal already aborted at entry gives an AbortError of 0 attempts with no
  invocation, and a sleep that is interrupted after attempt \<open>a\<close> gives an AbortError of
  \<open>a + 1\<close> attempts.
\<close>

theorem totalAttempts_counts_invocations:
  assumes "smartRetry fuel rt fn options w = Some (Rejected err, w', evs)"
  shows "(\<forall>md c. err = TimeoutError md c \<or> err = AbortError md c
            \<longrightarrow> totalAttempts md = Num (real (length (calls evs))))
       \<and> (\<forall>md c. err = RetryExhaustedError md c \<and> Number_isInteger (the_maxRetries options)
            \<longrightarrow> totalAttempts md = Num (real (length (calls evs))))
       \<and> (validateOptions options = None \<and> signalAborted options (snd (Date_now rt w))
            \<longrightarrow> err = AbortError \<lparr>totalAttempts = Num 0, totalElapsedMs = Num 0\<rparr>
                        (signalReason options (snd (Date_now rt w)))
              \<and> calls evs = [])
       \<and> (\<forall>s a le d w0 x w1. sleep rt d (signal options) w0 = (Inl x, w1)
            \<longrightarrow> (\<exists>md c w2 ev. sleepOrAbort rt options s a le d w0 = (Inl (AbortError md c), w2, ev)
                   \<and> totalAttempts md = Num (real (a + 1))))
       \<and> (\<forall>md c. err = RetryExhaustedError md c
            \<longrightarrow> totalAttempts md = js_add (the_maxRetries options) (Num 1))"
proof -
  have count: "countsAttempts options (length (calls evs)) err
      \<and> (validateOptions options = None \<and> signalAborted options (snd (Date_now rt w))
            \<longrightarrow> err = AbortError \<lparr>totalAttempts = Num 0, totalElapsedMs = Num 0\<rparr>
                        (signalReason options (snd (Date_now rt w)))
              \<and> calls evs = [])"
    using assms
  proof (cases rule: smartRetry_cases)
    case (invalid c)
    thus ?thesis by (simp add: countsAttempts_def)
  next
    case (cancelled s)
    thus ?thesis by (simp add: countsAttempts_def calls_polled)
  next
    case (ran s w0 evs')
    from attempts_count[OF ran(4) validateOptions_maxRetries[OF ran(1)]] ran(2,3,5)
    show ?thesis by (simp add: calls_append calls_polled)
  qed
  have c1: "\<forall>md c. err = TimeoutError md c \<or> err = AbortError md c
            \<longrightarrow> totalAttempts md = Num (real (length (calls evs)))"
    using count by (auto simp: countsAttempts_def)
  have c2: "\<forall>md c. err = RetryExhaustedError md c \<and> Number_isInteger (the_maxRetries options)
            \<longrightarrow> totalAttempts md = Num (real (length (calls evs)))"
    using count by (auto simp: countsAttempts_def)
  have c3: "validateOptions options = None \<and> signalAborted options (snd (Date_now rt w))
            \<longrightarrow> err = AbortError \<lparr>totalAttempts = Num 0, totalElapsedMs = Num 0\<rparr>
                        (signalReason options (snd (Date_now rt w)))
              \<and> calls evs = []"
    using count by simp
  have c4: "\<forall>s a le d w0 x w1. sleep rt d (signal options) w0 = (Inl x, w1)
            \<longrightarrow> (\<exists>md c w2 ev. sleepOrAbort rt options s a le d w0 = (Inl (AbortError md c), w2, ev)
                   \<and> totalAttempts md = Num (real (a + 1)))"
    using sleepOrAbort_interrupted[where rt = rt and options = options] by blast
  have c5: "\<forall>md c. err = RetryExhaustedError md c
            \<longrightarrow> totalAttempts md = js_add (the_maxRetries options) (Num 1)"
    using count by (auto simp: countsAttempts_def)
  show ?thesis by (intro conjI) (rule c1 c2 c3 c4 c5)+
qed

theorem totalAttempts_counts_invocations_witness:
  "smartRetry 5 virtualClock failing optsBudget 0
        = Some (Rejected (TimeoutError \<lparr>totalAttempts = Num 1, totalElapsedMs = Num 500\<rparr> e503), 500,
                [Clock 0, Clock 0, Invoked 0 (Some e503), Classify e503 0, Clock 200, Clock 200,
                 Sleep (Num 300), Clock 500])
   \<and> length (calls [Clock 0, Clock 0, Invoked 0 (Some e503), Classify e503 0, Clock 200, Clock 200,
                 Sleep (Num 300), Clock 500]) = 1
   \<and> Number_isInteger (the_maxRetries optsExhaust)
   \<and> smartRetry 3 virtualClock failing optsExhaust 0
        = Some (Rejected (RetryExhaustedError \<lparr>totalAttempts = Num 3, totalElapsedMs = Num 900\<rparr> e503),
                900,
                [Clock 0, Polled False, Polled False, Invoked 0 (Some e503), Classify e503 0, Polled False,
                 Notify e503 1 (Num 100), Sleep (Num 100),
                 Polled False, Invoked 1 (Some e503), Classify e503 1, Polled False,
                 Notify e503 2 (Num 200), Sleep (Num 200),
                 Polled False, Invoked 2 (Some e503), Clock 900])
   \<and> length (calls [Clock 0, Polled False, Polled False, Invoked 0 (Some e503), Classify e503 0,
                 Polled False, Notify e503 1 (Num 100), Sleep (Num 100),
                 Polled False, Invoked 1 (Some e503), Classify e503 1, Polled False,
                 Notify e503 2 (Num 200), Sleep (Num 200),
                 Polled False, Invoked 2 (Some e503), Clock 900]) = 3
   \<and> validateOptions optsCancelled = None
   \<and> signalAborted optsCancelled (snd (Date_now virtualClock 0))
   \<and> smartRetry 1 virtualClock failing optsCancelled 0
        = Some (Rejected (AbortError \<lparr>totalAttempts = Num 0, totalElapsedMs = Num 0\<rparr>
                            (JString ''cancelled'')), 0, [Clock 0, Polled True])
   \<and> calls [Clock 0, Polled True] = []
   \<and> sleep interruptingClock (Num 1000) (signal optsInterrupted) 200
        = (Inl (JString ''user cancelled''), 250)
   \<and> smartRetry 2 interruptingClock failing optsInterrupted 0
        = Some (Rejected (AbortError \<lparr>totalAttempts = Num 1, totalElapsedMs = Num 250\<rparr>
                            (JString ''user cancelled'')), 250,
                [Clock 0, Polled False, Polled False, Invoked 0 (Some e503), Classify e503 0,
                 Polled False, Sleep (Num 1000), Polled True, Clock 250])
   \<and> length (calls [Clock 0, Polled False, Polled False, Invoked 0 (Some e503), Classify e503 0,
                 Polled False, Sleep (Num 1000), Polled True, Clock 250]) = 1
   \<and> js_add (the_maxRetries optsExhaust) (Num 1) = Num 3"
proof -
  have int: "Number_isInteger (the_maxRetries optsExhaust)"
    by (simp add: the_maxRetries_def optsExhaust_def nullish_def)
  have entry: "validateOptions optsCancelled = None"
    "signalAborted optsCancelled (snd (Date_now virtualClock 0))"
    by (simp_all add: optsCancelled_def validateOptions_def offending_def nullish_def
          signalAborted_def abortedSignal_def virtualClock_def)
  note budget = totalAttempts_counts_invocations[OF run_budget]
  have "Num 1 = Num (real (length (calls
      [Clock 0, Clock 0, Invoked 0 (Some e503), Classify e503 0, Clock 200, Clock 200,
       Sleep (Num 300), Clock 500])))"
    using conjunct1[OF budget] by simp
  hence a: "length (calls [Clock 0, Clock 0, Invoked 0 (Some e503), Classify e503 0, Clock 200,
                 Clock 200, Sleep (Num 300), Clock 500]) = 1"
    by simp
  note exhaust = totalAttempts_counts_invocations[OF run_exhaust]
  have "Num 3 = Num (real (length (calls
      [Clock 0, Polled False, Polled False, Invoked 0 (Some e503), Classify e503 0,
       Polled False, Notify e503 1 (Num 100), Sleep (Num 100),
       Polled False, Invoked 1 (Some e503), Classify e503 1, Polled False,
       Notify e503 2 (Num 200), Sleep (Num 200),
       Polled False, Invoked 2 (Some e503), Clock 900])))"
    using conjunct1[OF conjunct2[OF exhaust]] int by simp
  hence b: "length (calls [Clock 0, Polled False, Polled False, Invoked 0 (Some e503), Classify e503 0,
                 Polled False, Notify e503 1 (Num 100), Sleep (Num 100),
                 Polled False, Invoked 1 (Some e503), Classify e503 1, Polled False,
                 Notify e503 2 (Num 200), Sleep (Num 200),
                 Polled False, Invoked 2 (Some e503), Clock 900]) = 3"
    by simp
  note cancelled = totalAttempts_counts_invocations[OF run_cancelled]
  have c: "calls [Clock 0, Polled True] = []"
    using conjunct1[OF conjunct2[OF conjunct2[OF cancelled]]] entry by simp
  note interrupted = totalAttempts_counts_invocations[OF run_interrupted]
  have "Num 1 = Num (real (length (calls
      [Clock 0, Polled False, Polled False, Invoked 0 (Some e503), Classify e503 0,
       Polled False, Sleep (Num 1000), Polled True, Clock 250])))"
    using conjunct1[OF interrupted] by simp
  hence d: "length (calls [Clock 0, Polled False, Polled False, Invoked 0 (Some e503), Classify e503 0,
                 Polled False, Sleep (Num 1000), Polled True, Clock 250]) = 1"
    by simp
  have e: "js_add (the_maxRetries optsExhaust) (Num 1) = Num 3"
    using conjunct2[OF conjunct2[OF conjunct2[OF conjunct2[OF exhaust]]]] by simp
  show ?thesis
    by (intro conjI)
       (rule run_budget a int run_exhaust b entry run_cancelled c sleep_interrupted run_interrupted d e)+
qed

section \<open>Fuel\<close>

text \<open>
  The fuel of \<open>attempts\<close> only bounds the number of iterations. A run that returns
  with some fuel returns the same with more, and whenever maxRetries is not
  \<open>Infinity\<close> there is fuel with which the run returns, whatever the operation, the
  predicate, the hook, the clock and the timers do. With \<open>maxRetries: Infinity\<close>, an
  operation that always fails and a predicate that always retries, no fuel is enough:
  the loop of the source never ends.
\<close>

lemma attempts_more_fuel:
  assumes "attempts k rt fn options s a le w = Some x"
  shows "attempts (k + j) rt fn options s a le w = Some x"
  using assms
proof (induction k arbitrary: a le w x)
  case 0
  thus ?case by simp
next
  case (Suc k)
  obtain r w' evs where x: "x = (r, w', evs)" by (cases x) auto
  from Suc.prems[unfolded x] show ?case
  proof (cases rule: attempts_cases)
    case (continued u w1 ev1 e w2 w3 ev3 ev4)
    from Suc.IH[OF continued(5)] continued x show ?thesis by (simp add: after_def)
  qed (simp_all add: x after_def)
qed

lemma attempts_returns_finite:
  assumes "the_maxRetries options = Num m"
  shows "\<exists>k x. attempts k rt fn options s a le w = Some x"
proof -
  have "nat (\<lfloor>m\<rfloor> + 1) - a \<le> n \<Longrightarrow> \<exists>k x. attempts k rt fn options s a le w = Some x" for n
  proof (induction n arbitrary: a le w)
    case 0
    hence "\<not> js_le (Num (real a)) (the_maxRetries options)"
      using assms by (simp add: not_le) linarith
    hence "attempts (Suc 0) rt fn options s a le w \<noteq> None" by simp
    thus ?case by blast
  next
    case (Suc n)
    show ?case
    proof (cases "js_le (Num (real a)) (the_maxRetries options)")
      case False
      hence "attempts (Suc 0) rt fn options s a le w \<noteq> None" by simp
      thus ?thesis by blast
    next
      case True
      obtain r1 w1 ev1 where b: "beforeAttempt rt options s a le w = (r1, w1, ev1)"
        by (rule triple)
      show ?thesis
      proof (cases r1)
        case (Inl err)
        hence "attempts (Suc 0) rt fn options s a le w \<noteq> None" using True b by simp
        thus ?thesis by blast
      next
        case (Inr u)
        obtain r2 w2 where f: "fn a w1 = (r2, w2)" by (cases "fn a w1") auto
        show ?thesis
        proof (cases r2)
          case (Inr v)
          hence "attempts (Suc 0) rt fn options s a le w \<noteq> None"
            using True b \<open>r1 = Inr u\<close> f by simp
          thus ?thesis by blast
        next
          case (Inl e)
          obtain r3 w3 ev3 where af: "afterFailure rt options s a e w2 = (r3, w3, ev3)"
            by (rule triple)
          have "nat (\<lfloor>m\<rfloor> + 1) - Suc a \<le> n" using Suc.prems by simp
          from Suc.IH[OF this, of e w3]
          obtain k x where rec: "attempts k rt fn options s (Suc a) e w3 = Some x" by blast
          have "attempts (Suc k) rt fn options s a le w \<noteq> None"
            using True b \<open>r1 = Inr u\<close> f Inl af rec
            by (cases r3) (auto split: control.splits simp del: split_paired_Ex)
          thus ?thesis by blast
        qed
      qed
    qed
  qed
  thus ?thesis by blast
qed

lemma attempts_returns:
  assumes "the_maxRetries options \<noteq> PosInf"
  shows "\<exists>k x. attempts k rt fn options s a le w = Some x"
proof (cases "the_maxRetries options")
  case (Num m)
  thus ?thesis by (rule attempts_returns_finite)
next
  case NaN
  hence "attempts (Suc 0) rt fn options s a le w \<noteq> None" by simp
  thus ?thesis by blast
next
  case PosInf
  thus ?thesis using assms by simp
next
  case NegInf
  hence "attempts (Suc 0) rt fn options s a le w \<noteq> None" by simp
  thus ?thesis by blast
qed

lemma smartRetry_returns:
  assumes "the_maxRetries options \<noteq> PosInf"
  shows "\<exists>fuel x. smartRetry fuel rt fn options w = Some x"
proof (cases "validateOptions options")
  case (Some c)
  thus ?thesis by (simp add: smartRetry_def)
next
  case None
  obtain s w0 where now: "Date_now rt w = (s, w0)" by (cases "Date_now rt w") auto
  from attempts_returns[OF assms, of rt fn s 0 JUndefined w0]
  obtain k x where "attempts k rt fn options s 0 JUndefined w0 = Some x" by blast
  hence "smartRetry k rt fn options w \<noteq> None"
    using None now by (simp add: smartRetry_def del: split_paired_Ex)
  thus ?thesis by blast
qed

lemma smartRetry_more_fuel:
  assumes "smartRetry fuel rt fn options w = Some x"
  shows "smartRetry (fuel + j) rt fn options w = Some x"
proof -
  obtain r w' evs where x: "x = (r, w', evs)" by (cases x) auto
  from assms[unfolded x] show ?thesis
  proof (cases rule: smartRetry_cases)
    case (ran s w0 evs')
    from attempts_more_fuel[OF ran(4), of j] ran x show ?thesis
      by (simp add: smartRetry_def after_def)
  qed (simp_all add: x smartRetry_def)
qed

lemma attempts_unbounded:
  assumes "the_maxRetries options = PosInf"
    and "alwaysFails fn" and "alwaysRetries options fn"
    and "\<And>limit w. timeoutMs options = Some limit
              \<Longrightarrow> js_lt (elapsedSince s (fst (Date_now rt w))) limit"
    and "neverCancelled rt options" and "hookNeverThrows options"
  shows "attempts k rt fn options s a le w = None"
proof (induction k arbitrary: a le w)
  case 0
  show ?case by simp
next
  case (Suc k)
  have le: "js_le (Num (real a)) (the_maxRetries options)" using assms(1) by simp
  obtain w1 ev1 where b: "beforeAttempt rt options s a le w = (Inr (), w1, ev1)"
    using beforeAttempt_passes[OF assms(4,5)] by blast
  obtain e w2 where f: "fn a w1 = (Inl e, w2)"
    using assms(2) unfolding alwaysFails_def by blast
  have retry: "\<And>w. \<exists>w'. the_retryOn options e a w = (Inr True, w')"
    using assms(3) f unfolding alwaysRetries_def by blast
  obtain w3 ev3 where "afterFailure rt options s a e w2
       = (Inr (if js_ge (Num (real a)) (the_maxRetries options) then Break else Continue), w3, ev3)"
    using afterFailure_proceeds[OF assms(4,5,6) retry] by blast
  hence af: "afterFailure rt options s a e w2 = (Inr Continue, w3, ev3)"
    using assms(1) by (simp add: js_ge_def)
  show ?case using le b f af Suc.IH[of "Suc a" e w3] by simp
qed

lemma smartRetry_unbounded:
  assumes "maxRetries options = Some PosInf"
    and "validateOptions options = None"
    and "alwaysFails fn" and "alwaysRetries options fn"
    and "timeoutNeverReached rt options" and "neverCancelled rt options"
    and "hookNeverThrows options"
  shows "smartRetry fuel rt fn options w = None"
proof -
  obtain s w0 where now: "Date_now rt w = (s, w0)" by (cases "Date_now rt w") auto
  have m: "the_maxRetries options = PosInf"
    using assms(1) by (simp add: the_maxRetries_def nullish_def)
  have t: "\<And>limit w1. timeoutMs options = Some limit
              \<Longrightarrow> js_lt (elapsedSince s (fst (Date_now rt w1))) limit"
  proof -
    fix limit w1 assume "timeoutMs options = Some limit"
    hence "js_lt (elapsedSince (fst (Date_now rt w)) (fst (Date_now rt w1))) limit"
      using assms(5) by (simp add: timeoutNeverReached_def)
    thus "js_lt (elapsedSince s (fst (Date_now rt w1))) limit" using now by simp
  qed
  have "attempts fuel rt fn options s 0 JUndefined w0 = None"
    by (rule attempts_unbounded[OF m assms(3,4) t assms(6,7)])
  thus ?thesis
    using assms(2) now neverCancelled_aborted[OF assms(6)] by (simp add: smartRetry_def)
qed

end
